theory Spec2Isabelle
  imports Main "HOL-Library.AList"
begin

section \<open>Strings\<close>

text \<open>
  A Python \<open>str\<close> is modelled as a \<^typ>\<open>string\<close>: each \<^typ>\<open>char\<close> stands for one code
  point below 256. On that range the character classes of Python's \<open>re\<close> module (for
  \<open>str\<close> patterns, without flags) are: \<open>.\<close> is every character but the line feed,
  \<open>\d\<close> is \<open>0\<close> to \<open>9\<close>, and \<open>\s\<close> is the characters for which \<open>str.isspace\<close> holds.
\<close>

definition newline :: char where
  "newline = CHR 0x0A"

definition is_digit :: "char \<Rightarrow> bool" where
  "is_digit x = (x \<in> set ''0123456789'')"

definition is_space :: "char \<Rightarrow> bool" where
  "is_space x = (x \<in> set [CHR 0x09, CHR 0x0A, CHR 0x0B, CHR 0x0C, CHR 0x0D,
                            CHR 0x1C, CHR 0x1D, CHR 0x1E, CHR 0x1F, CHR 0x20,
                            CHR 0x85, CHR 0xA0])"

text \<open>\<open>s.split(sep)\<close> for a separator of one character: always at least one piece.\<close>

fun split :: "char \<Rightarrow> string \<Rightarrow> string list" where
  "split sep [] = [[]]"
| "split sep (x # xs) =
     (if x = sep then [] # split sep xs
      else (case split sep xs of [] \<Rightarrow> [[x]] | p # ps \<Rightarrow> (x # p) # ps))"

text \<open>The decimal numeral that an f-string writes for a non-negative \<open>int\<close>.\<close>

function str_nat :: "nat \<Rightarrow> string" where
  "str_nat n =
     (if n < 10 then [''0123456789'' ! n]
      else str_nat (n div 10) @ [''0123456789'' ! (n mod 10)])"
  by pat_completeness auto
termination
  by (relation "measure (\<lambda>n. n)") auto

declare str_nat.simps [simp del]

text \<open>What an f-string writes for a value that is a \<open>str\<close> or \<open>None\<close>.\<close>

fun fmt :: "string option \<Rightarrow> string" where
  "fmt None = ''None''"
| "fmt (Some s) = s"


section \<open>Regular expressions with backtracking\<close>

text \<open>
  The patterns of \<open>Core.py\<close> are matched by Python's backtracking matcher, whose result
  depends on the order in which the alternatives are tried (greedy and lazy
  repetition, optional groups). The matcher is modelled by the list of all ways a
  pattern can match a prefix of the input, in the order the matcher tries them:
  each entry is the capture groups set so far and the input still unread.
  \<open>re.match\<close> takes the first entry. \<open>r+\<close> is \<open>r r*\<close> and \<open>r+?\<close> is \<open>r r*?\<close>.
  An iteration of a repetition that consumes nothing is cut off, as the matcher
  does; none of the patterns below has such an iteration.
\<close>

datatype regex =
    Atom "char \<Rightarrow> bool"
  | Seq regex regex
  | Alt regex regex
  | Star regex
  | LazyStar regex
  | Opt regex
  | Group nat regex

type_synonym caps = "nat \<Rightarrow> string option"

function ms :: "regex \<Rightarrow> caps \<Rightarrow> string \<Rightarrow> (caps \<times> string) list" where
  "ms (Atom p) c s = (case s of [] \<Rightarrow> [] | x # xs \<Rightarrow> if p x then [(c, xs)] else [])"
| "ms (Seq r1 r2) c s = concat (map (\<lambda>(c1, s1). ms r2 c1 s1) (ms r1 c s))"
| "ms (Alt r1 r2) c s = ms r1 c s @ ms r2 c s"
| "ms (Star r) c s =
     concat (map (\<lambda>(c1, s1). if length s1 < length s then ms (Star r) c1 s1 else [])
                 (ms r c s))
     @ [(c, s)]"
| "ms (LazyStar r) c s =
     (c, s) #
     concat (map (\<lambda>(c1, s1). if length s1 < length s then ms (LazyStar r) c1 s1 else [])
                 (ms r c s))"
| "ms (Opt r) c s = ms r c s @ [(c, s)]"
| "ms (Group n r) c s =
     map (\<lambda>(c1, s1). (c1(n \<mapsto> take (length s - length s1) s), s1)) (ms r c s)"
  by pat_completeness auto
termination
  by (relation "measures [\<lambda>(r, c, s). size r, \<lambda>(r, c, s). length s]") auto

declare ms.simps [simp del]

definition Plus :: "regex \<Rightarrow> regex" where
  "Plus r = Seq r (Star r)"

definition LazyPlus :: "regex \<Rightarrow> regex" where
  "LazyPlus r = Seq r (LazyStar r)"

definition Dot :: regex where
  "Dot = Atom (\<lambda>x. x \<noteq> newline)"

definition Digit :: regex where
  "Digit = Atom is_digit"

definition Space :: regex where
  "Space = Atom is_space"

definition Chars :: "string \<Rightarrow> regex" where
  "Chars cs = Atom (\<lambda>x. x \<in> set cs)"

fun ngroups :: "regex \<Rightarrow> nat" where
  "ngroups (Atom p) = 0"
| "ngroups (Seq r1 r2) = ngroups r1 + ngroups r2"
| "ngroups (Alt r1 r2) = ngroups r1 + ngroups r2"
| "ngroups (Star r) = ngroups r"
| "ngroups (LazyStar r) = ngroups r"
| "ngroups (Opt r) = ngroups r"
| "ngroups (Group n r) = Suc (ngroups r)"

text \<open>
  A match object: the capture groups (a group that took no part in the match is
  \<open>None\<close>), their number, and the span of the match.
\<close>

record pymatch =
  m_caps :: caps
  m_ngroups :: nat
  m_start :: nat
  m_end :: nat

datatype error = AttributeError | IndexError | TypeError

definition re_match :: "regex \<Rightarrow> string \<Rightarrow> pymatch option" where
  "re_match r s =
     (case ms r (\<lambda>_. None) s of
        [] \<Rightarrow> None
      | (c, rest) # _ \<Rightarrow>
          Some \<lparr>m_caps = c, m_ngroups = ngroups r, m_start = 0,
                m_end = length s - length rest\<rparr>)"

text \<open>\<open>m.group(i)\<close> for \<open>i \<ge> 1\<close>, and \<open>m.groups()\<close>.\<close>

definition group :: "pymatch \<Rightarrow> nat \<Rightarrow> error + string option" where
  "group m i = (if i \<le> m_ngroups m then Inr (m_caps m i) else Inl IndexError)"

definition groups :: "pymatch \<Rightarrow> string option list" where
  "groups m = map (m_caps m) [1..<Suc (m_ngroups m)]"


section \<open>Element trees\<close>

text \<open>
  The elements of \<open>xml.etree.ElementTree\<close> are mutable objects that the code reaches
  through several references (a row is filled after it was appended to its parent),
  so they live in a store: an element is an address, and the store maps an address to
  the element's tag, attributes, text and children. \<open>lim\<close> is the next free address.
  An attribute value is whatever Python object \<open>set\<close> was given.
\<close>

type_synonym addr = nat

datatype pyval = PyNone | PyStr string | PyInt int

record element =
  tag :: string
  attrib :: "(string \<times> pyval) list"
  el_text :: "string option"
  children :: "addr list"

record heap =
  cells :: "addr \<Rightarrow> element"
  lim :: addr

definition Element :: "string \<Rightarrow> heap \<Rightarrow> addr \<times> heap" where
  "Element t h =
     (lim h,
      h\<lparr>cells := (cells h)(lim h := \<lparr>tag = t, attrib = [], el_text = None, children = []\<rparr>),
        lim := Suc (lim h)\<rparr>)"

definition SubElement :: "addr \<Rightarrow> string \<Rightarrow> heap \<Rightarrow> addr \<times> heap" where
  "SubElement parent t h =
     (let (a, h1) = Element t h
      in (a, h1\<lparr>cells := (cells h1)
                  (parent := (cells h1 parent)\<lparr>children := children (cells h1 parent) @ [a]\<rparr>)\<rparr>))"

definition el_set :: "addr \<Rightarrow> string \<Rightarrow> pyval \<Rightarrow> heap \<Rightarrow> heap" where
  "el_set a k v h =
     h\<lparr>cells := (cells h)(a := (cells h a)\<lparr>attrib := AList.update k v (attrib (cells h a))\<rparr>)\<rparr>"

definition set_text :: "addr \<Rightarrow> string option \<Rightarrow> heap \<Rightarrow> heap" where
  "set_text a v h = h\<lparr>cells := (cells h)(a := (cells h a)\<lparr>el_text := v\<rparr>)\<rparr>"

fun pyval_of :: "string option \<Rightarrow> pyval" where
  "pyval_of None = PyNone"
| "pyval_of (Some s) = PyStr s"


section \<open>Inline rule \<open>ID\<close>\<close>

text \<open>
  \<open>ID(pattern, tag, property_, value=None)\<close>. The host parser searches the pattern and
  hands the match object to \<open>handleMatch\<close>; \<open>ID_value\<close> is \<open>PyNone\<close> when \<open>value\<close> is
  not given.
\<close>

record ID =
  ID_tag :: string
  ID_property :: string
  ID_value :: pyval

definition ID_handleMatch ::
  "ID \<Rightarrow> pymatch \<Rightarrow> heap \<Rightarrow> (error + addr \<times> nat \<times> nat) \<times> heap" where
  "ID_handleMatch self m h =
     (let (tg, h1) = Element (ID_tag self) h
      in case group m 1 of
           Inl e \<Rightarrow> (Inl e, h1)
         | Inr g1 \<Rightarrow>
             (let h2 = set_text tg g1 h1
              in if ID_value self = PyNone
                 then (case group m 2 of
                         Inl e \<Rightarrow> (Inl e, h2)
                       | Inr g2 \<Rightarrow>
                           (Inr (tg, m_start m, m_end m),
                            el_set tg (ID_property self) (pyval_of g2) h2))
                 else (Inr (tg, m_start m, m_end m),
                       el_set tg (ID_property self) (ID_value self) h2)))"


section \<open>Block rule \<open>Syllabus\<close>\<close>

text \<open>\<open>syllabus_re = r'(\d+(\.\d+)*)\s+(.*)'\<close>\<close>

definition syllabus_re :: regex where
  "syllabus_re =
     Seq (Group 1 (Seq (Plus Digit) (Star (Group 2 (Seq (Chars ''.'') (Plus Digit))))))
         (Seq (Plus Space) (Group 3 (Star Dot)))"

definition Syllabus_test :: "addr \<Rightarrow> string \<Rightarrow> pymatch option" where
  "Syllabus_test parent block = re_match syllabus_re block"

text \<open>
  \<open>run\<close> returns its value (or the exception raised) together with the store and the
  list of blocks as it leaves them. \<open>blocks[0]\<close> raises \<open>IndexError\<close> on an empty list,
  \<open>syllabus.group(1)\<close> raises \<open>AttributeError\<close> when there is no match; both happen
  before the first mutation.
\<close>

definition Syllabus_run ::
  "addr \<Rightarrow> string list \<Rightarrow> heap \<Rightarrow> (error + bool) \<times> heap \<times> string list" where
  "Syllabus_run parent blocks h =
     (case blocks of
        [] \<Rightarrow> (Inl IndexError, h, blocks)
      | b # bs \<Rightarrow>
          (case re_match syllabus_re b of
             None \<Rightarrow> (Inl AttributeError, h, blocks)
           | Some syllabus \<Rightarrow>
               (case group syllabus 1 of
                  Inl e \<Rightarrow> (Inl e, h, blocks)
                | Inr None \<Rightarrow> (Inl AttributeError, h, blocks)
                | Inr (Some g1) \<Rightarrow>
                    (let (header, h1) =
                           SubElement parent (''h'' @ str_nat (length (split CHR ''.'' g1))) h;
                         h2 = el_set header ''id'' (PyStr g1) h1
                     in case group syllabus 3 of
                          Inl e \<Rightarrow> (Inl e, h2, blocks)
                        | Inr None \<Rightarrow> (Inl TypeError, h2, blocks)
                        | Inr (Some g3) \<Rightarrow>
                            (Inr False,
                             set_text header (Some (g1 @ '' '' @ g3)) h2,
                             [] # bs)))))"


section \<open>Dialogue blocks\<close>

text \<open>
  The direction and the kind of an utterance are the string literals
  \<open>'\<^verbatim>\<open>zuo\<close>' | '\<^verbatim>\<open>zhong\<close>' | '\<^verbatim>\<open>you\<close>'\<close> (left, centre, right) and
  \<open>'\<^verbatim>\<open>putong\<close>' | '\<^verbatim>\<open>xinli\<close>'\<close> (normal, inner thought) of the source, written there in
  Chinese characters; no other value is ever passed.
\<close>

datatype direction = Left | Center | Right

datatype kind = Normal | Thought

record DialogueParser =
  dialogue :: "string option"
  title :: addr
  block :: addr
  box :: addr

text \<open>
  \<open>__init__(dialogue, title, block)\<close>: the title argument is stored and at once
  overwritten by the new title element.
\<close>

definition DialogueParser_init ::
  "string option \<Rightarrow> string option \<Rightarrow> addr \<Rightarrow> heap \<Rightarrow> DialogueParser \<times> heap" where
  "DialogueParser_init dialogue_arg title_arg block_arg h =
     (let (t, h1) = SubElement block_arg ''div'' h;
          (b, h2) = SubElement block_arg ''div'' h1
      in (\<lparr>dialogue = dialogue_arg, title = t, block = block_arg, box = b\<rparr>, h2))"

definition DialogueParser_line ::
  "DialogueParser \<Rightarrow> direction \<Rightarrow> string option \<Rightarrow> string option \<Rightarrow> kind \<Rightarrow> heap \<Rightarrow> heap" where
  "DialogueParser_line self direction charactor txt type' h =
     (let (row, h1) = SubElement (box self) ''div'' h;
          h2 = el_set row ''class'' (PyStr ''dialog-row'') h1;
          (left, h3) = SubElement row ''div'' h2;
          h4 = el_set left ''class''
                 (PyStr (''user-name '' @ (if direction = Left then ''left'' else ''''))) h3;
          h5 = (if direction = Left then set_text left charactor h4 else h4);
          (middle, h6) = SubElement row ''div'' h5;
          h7 = el_set middle ''class'' (PyStr ''message-content'') h6;
          h8 = (case type' of
                  Normal \<Rightarrow> set_text middle txt h7
                | Thought \<Rightarrow>
                    (let (mental, ha) = SubElement middle ''p'' h7;
                         hb = el_set mental ''class'' (PyStr ''thought'') ha
                     in set_text mental txt hb));
          (right, h9) = SubElement row ''div'' h8;
          h10 = el_set right ''class''
                  (PyStr (''user-name '' @ (if direction = Right then ''right'' else ''''))) h9
      in if direction = Right then set_text right charactor h10 else h10)"

text \<open>\<open>re.compile(r'(.+?)([<>]+)(.+)')\<close>\<close>

definition dialogue_re :: regex where
  "dialogue_re =
     Seq (Group 1 (LazyPlus Dot)) (Seq (Group 2 (Plus (Chars ''<>''))) (Group 3 (Plus Dot)))"

text \<open>
  \<open>lines\<close>: the \<open>AttributeError\<close> of \<open>.groups()\<close> on a failed match is caught and makes
  the line narration; the \<open>match\<close> statement compares the second group with the four
  separators and does nothing in its last case.
\<close>

definition DialogueParser_lines :: "DialogueParser \<Rightarrow> string \<Rightarrow> heap \<Rightarrow> heap" where
  "DialogueParser_lines self line h =
     (if line = [] then h
      else (case re_match dialogue_re line of
              None \<Rightarrow> DialogueParser_line self Center (Some []) (Some line) Normal h
            | Some m \<Rightarrow>
                (case groups m of
                   [charactor, sep, dlg] \<Rightarrow>
                     if sep = Some ''>'' then DialogueParser_line self Left charactor dlg Normal h
                     else if sep = Some ''<'' then
                       DialogueParser_line self Right charactor dlg Normal h
                     else if sep = Some ''>>'' then
                       DialogueParser_line self Left charactor dlg Thought h
                     else if sep = Some ''<<'' then
                       DialogueParser_line self Right charactor dlg Thought h
                     else h
                 | _ \<Rightarrow> h)))"

text \<open>The \<open>for\<close> loop of \<open>__call__\<close> over the lines of the block's text.\<close>

fun DialogueParser_loop :: "DialogueParser \<Rightarrow> string list \<Rightarrow> heap \<Rightarrow> heap" where
  "DialogueParser_loop self [] h = h"
| "DialogueParser_loop self (block' # rest) h =
     DialogueParser_loop self rest (DialogueParser_lines self block' h)"

text \<open>
  \<open>__call__\<close>: \<open>self.block.text.split\<close> raises \<open>AttributeError\<close> when the block has no
  text (\<open>None\<close>), after the two classes were set.
\<close>

definition DialogueParser_call :: "DialogueParser \<Rightarrow> heap \<Rightarrow> (error + unit) \<times> heap" where
  "DialogueParser_call self h =
     (let h1 = el_set (title self) ''class'' (PyStr ''message-title'') h;
          h2 = el_set (box self) ''class'' (PyStr ''dialog-container'') h1
      in case el_text (cells h2 (block self)) of
           None \<Rightarrow> (Inl AttributeError, h2)
         | Some t \<Rightarrow>
             (let h3 = DialogueParser_loop self (split newline t) h2;
                  (br, h4) = SubElement (block self) ''br'' h3
              in (Inr (), h4)))"

definition DialogueBlock_on_create :: "addr \<Rightarrow> heap \<Rightarrow> addr \<times> heap" where
  "DialogueBlock_on_create parent h = SubElement parent ''div'' h"

text \<open>\<open>on_end(block)\<close>; \<open>argument\<close> is the block's declared argument.\<close>

definition DialogueBlock_on_end ::
  "string option \<Rightarrow> addr \<Rightarrow> heap \<Rightarrow> (error + unit) \<times> heap" where
  "DialogueBlock_on_end argument blk h =
     (let (parser, h1) = DialogueParser_init (el_text (cells h blk)) argument blk h
      in case DialogueParser_call parser h1 of
           (Inl e, h2) \<Rightarrow> (Inl e, h2)
         | (Inr u, h2) \<Rightarrow> (Inr (), set_text blk (Some []) h2))"


section \<open>Inline code\<close>

text \<open>\<open>re.compile(r'([#-])?(.*)')\<close>\<close>

definition inline_re :: regex where
  "inline_re = Seq (Opt (Group 1 (Chars ''#-''))) (Group 2 (Star Dot))"

text \<open>
  \<open>InlineCode(variable)\<close>: the variable dictionary, or \<open>None\<close>. A call returns the
  host's highlighted code (for a span with a language), an HTML string, or
  \<open>None\<close> when no case of the \<open>match\<close> statement applies.
\<close>

record InlineCode =
  variable :: "(string \<Rightarrow> string option) option"

datatype 'e inline_result = Highlighted 'e | Html string | ReturnsNone

definition InlineCode_call ::
  "InlineCode \<Rightarrow> (string \<Rightarrow> string \<Rightarrow> string \<Rightarrow> 'e) \<Rightarrow> string \<Rightarrow> string \<Rightarrow> string
     \<Rightarrow> error + 'e inline_result" where
  "InlineCode_call self highlight_code source language css_class =
     (if language \<noteq> [] then Inr (Highlighted (highlight_code source language css_class))
      else (case re_match inline_re source of
              None \<Rightarrow> Inl AttributeError
            | Some m \<Rightarrow>
                (case groups m of
                   [sigil, v] \<Rightarrow>
                     if sigil = Some ''#'' then
                       Inr (Html (''<span id=\"'' @ fmt v @ ''\">'' @ fmt v @ ''</span>''))
                     else if sigil = Some ''-'' then
                       Inr (Html (''<a href=#'' @ fmt v @ ''>'' @ fmt v @ ''</a>''))
                     else if sigil = None then
                       (case variable self of
                          None \<Rightarrow> Inl TypeError
                        | Some vars \<Rightarrow>
                            (case (case v of None \<Rightarrow> None | Some k \<Rightarrow> vars k) of
                               Some x \<Rightarrow> Inr (Html (''<code id=\"block\">'' @ x @ ''</code>''))
                             | None \<Rightarrow>
                                 Inr (Html (''<code id=\"block\">'' @ fmt v @ ''</code>''))))
                     else Inr ReturnsNone
                 | _ \<Rightarrow> Inr ReturnsNone)))"


section \<open>The formatter of the \<open>dialogue\<close> fence\<close>

definition dialogue_formatter :: "string \<Rightarrow> string \<Rightarrow> string \<Rightarrow> string" where
  "dialogue_formatter source language css_class =
     ''<canvas></canvas><script>'' @ source @ ''</script>''"

text \<open>
  The \<open>custom_fences\<close> of the registry: name, class and formatter of each fence.
  \<open>fence_div_format\<close> belongs to the host and is a parameter.
\<close>

definition custom_fences ::
  "(string \<Rightarrow> string \<Rightarrow> string \<Rightarrow> string)
     \<Rightarrow> (string \<times> string \<times> (string \<Rightarrow> string \<Rightarrow> string \<Rightarrow> string)) list" where
  "custom_fences fence_div_format =
     [(''mermaid'', ''mermaid'', fence_div_format),
      (''dialogue'', ''dialogue'', dialogue_formatter)]"


section \<open>Notions used in the statements and proofs\<close>

text \<open>The separator characters, and the part of \<open>dialogue_re\<close> after its first group.\<close>

definition sepc :: "char \<Rightarrow> bool" where
  "sepc x = (x \<in> set ''<>'')"

definition sep_tail :: regex where
  "sep_tail = Seq (Group 2 (Plus (Chars ''<>''))) (Group 3 (Plus Dot))"

text \<open>
  The pattern as the specification words it: a lazy first group, then a separator
  that is either a run of less-than signs or a run of greater-than signs (never a
  mixed run), then a greedy last group.
\<close>

definition spec_dialogue_re :: regex where
  "spec_dialogue_re =
     Seq (Group 1 (LazyPlus Dot))
         (Seq (Group 2 (Alt (Plus (Chars ''<'')) (Plus (Chars ''>'')))) (Group 3 (Plus Dot)))"

text \<open>
  A sample document for the concrete instances: a store with the root element at
  address 0, a dialogue block created under it (address 1) whose text the host has
  set, and the parser that \<open>on_end\<close> builds for it.
\<close>

definition root_heap :: heap where
  "root_heap =
     \<lparr>cells = (\<lambda>_. \<lparr>tag = ''div'', attrib = [], el_text = None, children = []\<rparr>), lim = 1\<rparr>"

definition sample_heap :: "string \<Rightarrow> heap" where
  "sample_heap t = set_text 1 (Some t) (snd (DialogueBlock_on_create 0 root_heap))"

definition sample_parser :: "string \<Rightarrow> DialogueParser" where
  "sample_parser t = fst (DialogueParser_init (Some t) None 1 (sample_heap t))"

definition sample_parser_heap :: "string \<Rightarrow> heap" where
  "sample_parser_heap t = snd (DialogueParser_init (Some t) None 1 (sample_heap t))"

text \<open>
  The repeated part of \<open>syllabus_re\<close>; the concatenation of segments each preceded by
  a dot; and a segment: a non-empty string of digits.
\<close>

definition id_tail :: regex where
  "id_tail = Group 2 (Seq (Chars ''.'') (Plus Digit))"

definition dotted :: "string list \<Rightarrow> string" where
  "dotted segs = concat (map (\<lambda>g. CHR ''.'' # g) segs)"

definition digits :: "string \<Rightarrow> bool" where
  "digits g = (g \<noteq> [] \<and> (\<forall>x\<in>set g. is_digit x))"

text \<open>
  The outline pattern as the specification words it: as \<open>syllabus_re\<close>, but the title
  group needs at least one character; it is applied to the first line of the block.
\<close>

definition spec_syllabus_re :: regex where
  "spec_syllabus_re =
     Seq (Group 1 (Seq (Plus Digit) (Star (Group 2 (Seq (Chars ''.'') (Plus Digit))))))
         (Seq (Plus Space) (Group 3 (Plus Dot)))"

text \<open>
  The turn a line of a dialogue stands for, as the specification's data model has it:
  direction, speaker, utterance and kind; none for a blank line and for a line whose
  separator is not one of the four. \<open>turns\<close> are the turns of a list of lines, in order.
\<close>

type_synonym turn = "direction \<times> string option \<times> string option \<times> kind"

definition turn_of :: "string \<Rightarrow> turn option" where
  "turn_of line =
     (if line = [] then None
      else (case re_match dialogue_re line of
              None \<Rightarrow> Some (Center, Some [], Some line, Normal)
            | Some m \<Rightarrow>
                (case groups m of
                   [charactor, sep, dlg] \<Rightarrow>
                     if sep = Some ''>'' then Some (Left, charactor, dlg, Normal)
                     else if sep = Some ''<'' then Some (Right, charactor, dlg, Normal)
                     else if sep = Some ''>>'' then Some (Left, charactor, dlg, Thought)
                     else if sep = Some ''<<'' then Some (Right, charactor, dlg, Thought)
                     else None
                 | _ \<Rightarrow> None)))"

definition turns :: "string list \<Rightarrow> turn list" where
  "turns ls = List.map_filter turn_of ls"

text \<open>
  For the concrete instances of inline code: a host formatter, and a variable
  dictionary with the two keys \<open>greeting\<close> and the two-line name \<open>a\<close>, \<open>b\<close>.
\<close>

definition sample_highlight :: "string \<Rightarrow> string \<Rightarrow> string \<Rightarrow> unit" where
  "sample_highlight source language css_class = ()"

definition sample_variable :: "string \<Rightarrow> string option" where
  "sample_variable =
     map_of [(''greeting'', ''Hello''), ([CHR ''a'', newline, CHR ''b''], ''X'')]"



section \<open>The matcher on repeated character classes\<close>

lemma ms_Atom_Nil: "ms (Atom p) c [] = []"
  by (simp add: ms.simps)

lemma ms_Atom_Cons: "ms (Atom p) c (x # xs) = (if p x then [(c, xs)] else [])"
  by (simp add: ms.simps)

lemma ms_Star_Atom_Nil: "ms (Star (Atom p)) c [] = [(c, [])]"
  by (simp add: ms.simps(4) ms_Atom_Nil)

lemma ms_Star_Atom_Cons:
  "ms (Star (Atom p)) c (x # xs) =
     (if p x then ms (Star (Atom p)) c xs @ [(c, x # xs)] else [(c, x # xs)])"
  by (simp add: ms.simps(4) [of "Atom p" c "x # xs"] ms_Atom_Cons)

lemma ms_LazyStar_Atom_Nil: "ms (LazyStar (Atom p)) c [] = [(c, [])]"
  by (simp add: ms.simps(5) ms_Atom_Nil)

lemma ms_LazyStar_Atom_Cons:
  "ms (LazyStar (Atom p)) c (x # xs) =
     (if p x then (c, x # xs) # ms (LazyStar (Atom p)) c xs else [(c, x # xs)])"
  by (simp add: ms.simps(5) [of "Atom p" c "x # xs"] ms_Atom_Cons)

lemma ms_Plus_Atom_Nil: "ms (Plus (Atom p)) c [] = []"
  by (simp add: Plus_def ms.simps(2) ms_Atom_Nil)

lemma ms_Plus_Atom_Cons:
  "ms (Plus (Atom p)) c (x # xs) = (if p x then ms (Star (Atom p)) c xs else [])"
  by (simp add: Plus_def ms.simps(2) ms_Atom_Cons)

lemma ms_Star_Atom_first:
  "\<exists>rest. ms (Star (Atom p)) c s = (c, dropWhile p s) # rest"
  by (induction s) (auto simp: ms_Star_Atom_Nil ms_Star_Atom_Cons)

lemma ms_Star_Atom_all:
  "\<forall>x\<in>set t. p x \<Longrightarrow> t \<noteq> [] \<Longrightarrow>
     \<exists>rest. ms (Star (Atom p)) c t = (c, []) # (c, [last t]) # rest"
proof (induction t)
  case Nil
  then show ?case by simp
next
  case (Cons y t)
  show ?case
  proof (cases "t = []")
    case True
    with Cons.prems show ?thesis
      by (simp add: ms_Star_Atom_Nil ms_Star_Atom_Cons)
  next
    case False
    with Cons obtain rest where "ms (Star (Atom p)) c t = (c, []) # (c, [last t]) # rest"
      by auto
    with Cons.prems False show ?thesis
      by (simp add: ms_Star_Atom_Cons)
  qed
qed

lemma ms_Star_Atom_mem:
  "(c', s') \<in> set (ms (Star (Atom p)) c s) \<Longrightarrow>
     c' = c \<and> (\<exists>pre. s = pre @ s' \<and> (\<forall>x\<in>set pre. p x))"
proof (induction s)
  case Nil
  then show ?case by (simp add: ms_Star_Atom_Nil)
next
  case (Cons x xs)
  show ?case
  proof (cases "p x \<and> (c', s') \<in> set (ms (Star (Atom p)) c xs)")
    case True
    with Cons.IH obtain pre where "c' = c" "xs = pre @ s'" "\<forall>x\<in>set pre. p x"
      by auto
    with True have "x # xs = (x # pre) @ s' \<and> (\<forall>y\<in>set (x # pre). p y)"
      by simp
    with \<open>c' = c\<close> show ?thesis by blast
  next
    case False
    with Cons.prems have "c' = c \<and> s' = x # xs"
      by (auto simp: ms_Star_Atom_Cons split: if_splits)
    then show ?thesis by auto
  qed
qed

lemma ms_LazyStar_Dot:
  "newline \<notin> set s \<Longrightarrow>
     ms (LazyStar Dot) c s = map (\<lambda>k. (c, drop k s)) [0..<Suc (length s)]"
proof (induction s)
  case Nil
  then show ?case by (simp add: Dot_def ms_LazyStar_Atom_Nil)
next
  case (Cons x xs)
  then show ?case
    by (auto simp: Dot_def ms_LazyStar_Atom_Cons map_upt_Suc simp del: upt_Suc)
qed

lemma concat_map_first:
  assumes "i < n" and "\<forall>k<i. f k = []"
  shows "concat (map f [0..<n]) = f i @ concat (map f [Suc i..<n])"
proof -
  have "[0..<n] = [0..<i] @ i # [Suc i..<n]"
    using assms(1) by (metis less_imp_le_nat upt_add_eq_append upt_conv_Cons le_add_diff_inverse zero_le)
  moreover have "concat (map f [0..<i]) = []"
    using assms(2) by simp
  ultimately show ?thesis by simp
qed

lemma ms_Group_LazyPlus_Dot:
  assumes "newline \<notin> set s"
  shows "ms (Group n (LazyPlus Dot)) c s =
           map (\<lambda>k. (c(n \<mapsto> take (Suc k) s), drop (Suc k) s)) [0..<length s]"
proof (cases s)
  case Nil
  then show ?thesis
    by (simp add: ms.simps(7) ms.simps(2) LazyPlus_def Dot_def ms_Atom_Nil)
next
  case (Cons x xs)
  with assms have nl: "x \<noteq> newline" "newline \<notin> set xs" by auto
  have "ms (LazyPlus Dot) c s = map (\<lambda>k. (c, drop k xs)) [0..<Suc (length xs)]"
    using nl Cons ms_LazyStar_Dot [of xs c]
    by (simp add: LazyPlus_def ms.simps(2) ms_Atom_Cons Dot_def del: upt_Suc)
  then show ?thesis
    using Cons by (simp add: ms.simps(7) o_def del: upt_Suc)
qed

lemma sep_tail_none:
  assumes "s = [] \<or> \<not> sepc (hd s) \<or> length s = 1"
  shows "ms sep_tail c s = []"
proof (cases s)
  case Nil
  then show ?thesis
    by (simp add: sep_tail_def ms.simps(2) ms.simps(7) Chars_def ms_Plus_Atom_Nil)
next
  case (Cons x xs)
  show ?thesis
  proof (cases "sepc x")
    case False
    with Cons show ?thesis
      by (simp add: sep_tail_def ms.simps(2) ms.simps(7) Chars_def ms_Plus_Atom_Cons sepc_def)
  next
    case True
    with assms Cons have "xs = []" by simp
    with Cons True show ?thesis
      by (simp add: sep_tail_def ms.simps(2) ms.simps(7) Chars_def Dot_def ms_Plus_Atom_Cons
          ms_Plus_Atom_Nil ms_Star_Atom_Nil sepc_def)
  qed
qed

lemma ms_Group_Plus_Dot_first:
  assumes "b \<noteq> []" and "newline \<notin> set b"
  shows "\<exists>rest. ms (Group n (Plus Dot)) c b = (c(n \<mapsto> b), []) # rest"
proof -
  from assms obtain x xs where b: "b = x # xs" "x \<noteq> newline" "newline \<notin> set xs"
    by (cases b) auto
  then have "dropWhile (\<lambda>x. x \<noteq> newline) xs = []"
    by auto
  with ms_Star_Atom_first [of "\<lambda>x. x \<noteq> newline" c xs]
  obtain rest where "ms (Star (Atom (\<lambda>x. x \<noteq> newline))) c xs = (c, []) # rest"
    by auto
  with b show ?thesis
    by (simp add: ms.simps(7) Dot_def ms_Plus_Atom_Cons)
qed

lemma sep_tail_first:
  assumes "sp \<noteq> []" and "\<forall>x\<in>set sp. sepc x" and "b \<noteq> []"
    and "\<not> sepc (hd b) \<or> tl b = []" and "newline \<notin> set b"
  shows "\<exists>rest. ms sep_tail c (sp @ b) = (c(2 \<mapsto> sp, 3 \<mapsto> b), []) # rest"
proof (cases "sepc (hd b)")
  case False
  from assms(1) obtain x xs where sp: "sp = x # xs" by (cases sp) auto
  from False assms(2,3) sp have "dropWhile sepc (xs @ b) = b"
    by (cases b) (simp_all add: dropWhile_append)
  with ms_Star_Atom_first [of sepc c "xs @ b"]
  obtain r1 where "ms (Star (Atom sepc)) c (xs @ b) = (c, b) # r1"
    by auto
  with sp assms(2) have "\<exists>r2. ms (Group 2 (Plus (Chars ''<>''))) c (sp @ b) = (c(2 \<mapsto> sp), b) # r2"
    by (simp add: ms.simps(7) Chars_def ms_Plus_Atom_Cons sepc_def [abs_def])
  then obtain r2 where g2: "ms (Group 2 (Plus (Chars ''<>''))) c (sp @ b) = (c(2 \<mapsto> sp), b) # r2"
    by blast
  from ms_Group_Plus_Dot_first [OF assms(3,5), of 3 "c(2 \<mapsto> sp)"]
  obtain r3 where "ms (Group 3 (Plus Dot)) (c(2 \<mapsto> sp)) b = (c(2 \<mapsto> sp, 3 \<mapsto> b), []) # r3"
    by blast
  with g2 show ?thesis
    by (simp add: sep_tail_def ms.simps(2))
next
  case True
  with assms(3,4) obtain y where b: "b = [y]" "sepc y"
    by (cases b) auto
  from assms(1) obtain x xs where sp: "sp = x # xs" by (cases sp) auto
  have "\<forall>z\<in>set (xs @ [y]). sepc z" "xs @ [y] \<noteq> []"
    using assms(2) sp b by auto
  from ms_Star_Atom_all [OF this, of c]
  obtain r1 where "ms (Star (Atom sepc)) c (xs @ [y]) = (c, []) # (c, [y]) # r1"
    by auto
  with sp assms(2) b have "\<exists>r2. ms (Group 2 (Plus (Chars ''<>''))) c (sp @ b) =
      (c(2 \<mapsto> sp @ b), []) # (c(2 \<mapsto> sp), b) # r2"
    by (simp add: ms.simps(7) Chars_def ms_Plus_Atom_Cons sepc_def [abs_def])
  then obtain r2 where g2: "ms (Group 2 (Plus (Chars ''<>''))) c (sp @ b) =
      (c(2 \<mapsto> sp @ b), []) # (c(2 \<mapsto> sp), b) # r2"
    by blast
  have "ms (Group 3 (Plus Dot)) (c(2 \<mapsto> sp @ b)) [] = []"
    by (simp add: ms.simps(7) Dot_def ms_Plus_Atom_Nil)
  moreover from ms_Group_Plus_Dot_first [OF assms(3,5), of 3 "c(2 \<mapsto> sp)"]
  obtain r3 where "ms (Group 3 (Plus Dot)) (c(2 \<mapsto> sp)) b = (c(2 \<mapsto> sp, 3 \<mapsto> b), []) # r3"
    by blast
  ultimately show ?thesis
    using g2 by (simp add: sep_tail_def ms.simps(2))
qed

lemma dialogue_re_ms:
  assumes "newline \<notin> set l"
  shows "ms dialogue_re c l =
           concat (map (\<lambda>k. ms sep_tail (c(1 \<mapsto> take (Suc k) l)) (drop (Suc k) l)) [0..<length l])"
  by (simp add: dialogue_re_def sep_tail_def [symmetric] ms.simps(2) [of _ sep_tail]
      ms_Group_LazyPlus_Dot [OF assms] o_def)

lemma groups_of_3:
  "groups \<lparr>m_caps = c, m_ngroups = 3, m_start = i, m_end = j\<rparr> = [c 1, c 2, c 3]"
  by (simp add: groups_def upt_rec numeral_2_eq_2 numeral_3_eq_3)

lemma ngroups_dialogue_re: "ngroups dialogue_re = 3"
  by (simp add: dialogue_re_def Plus_def LazyPlus_def Dot_def Chars_def)

lemma not_sepc_newline: "\<not> sepc newline"
  by (simp add: sepc_def newline_def)

lemma dialogue_match:
  assumes "a \<noteq> []" and "\<forall>x\<in>set (tl a). \<not> sepc x"
    and "sp \<noteq> []" and "\<forall>x\<in>set sp. sepc x"
    and "b \<noteq> []" and "\<not> sepc (hd b) \<or> tl b = []"
    and "newline \<notin> set a" and "newline \<notin> set b"
  shows "\<exists>m. re_match dialogue_re (a @ sp @ b) = Some m \<and> groups m = [Some a, Some sp, Some b]"
proof -
  let ?l = "a @ sp @ b"
  let ?c = "\<lambda>_::nat. None :: string option"
  let ?f = "\<lambda>k. ms sep_tail (?c(1 \<mapsto> take (Suc k) ?l)) (drop (Suc k) ?l)"
  have "newline \<notin> set sp"
    using assms(4) not_sepc_newline by blast
  with assms(7,8) have nl: "newline \<notin> set ?l" by simp
  obtain i where i: "length a = Suc i"
    using assms(1) by (cases a) auto
  have early: "\<forall>k<i. ?f k = []"
  proof (intro allI impI)
    fix k assume k: "k < i"
    from k i have d: "drop (Suc k) ?l = drop (Suc k) a @ sp @ b" by simp
    from k i have ne: "drop (Suc k) a \<noteq> []" by simp
    then have "hd (drop (Suc k) a) \<in> set (drop (Suc k) a)"
      by (rule hd_in_set)
    then have "hd (drop (Suc k) a) \<in> set (drop k (tl a))"
      by (simp only: drop_Suc)
    then have "hd (drop (Suc k) a) \<in> set (tl a)"
      by (rule in_set_dropD)
    with assms(2) have "\<not> sepc (hd (drop (Suc k) a))"
      by blast
    with ne have "\<not> sepc (hd (drop (Suc k) ?l))"
      by (simp add: d del: drop_append)
    then show "?f k = []"
      by (intro sep_tail_none disjI2 disjI1)
  qed
  have il: "i < length ?l" using i by simp
  have tk: "take (Suc i) ?l = a" and dr: "drop (Suc i) ?l = sp @ b"
    using i by simp_all
  from sep_tail_first [OF assms(3,4,5,6,8), of "?c(1 \<mapsto> a)"]
  obtain rest where "ms sep_tail (?c(1 \<mapsto> a)) (sp @ b) = (?c(1 \<mapsto> a, 2 \<mapsto> sp, 3 \<mapsto> b), []) # rest"
    by blast
  then have fi: "?f i = (?c(1 \<mapsto> a, 2 \<mapsto> sp, 3 \<mapsto> b), []) # rest"
    by (simp only: tk dr)
  have "ms dialogue_re ?c ?l = concat (map ?f [0..<length ?l])"
    by (rule dialogue_re_ms [OF nl])
  also have "\<dots> = ?f i @ concat (map ?f [Suc i..<length ?l])"
    by (rule concat_map_first [OF il early])
  finally have "ms dialogue_re ?c ?l =
      (?c(1 \<mapsto> a, 2 \<mapsto> sp, 3 \<mapsto> b), []) # (rest @ concat (map ?f [Suc i..<length ?l]))"
    by (simp only: fi append_Cons)
  then show ?thesis
    by (simp add: re_match_def ngroups_dialogue_re groups_of_3)
qed


lemma dialogue_nomatch:
  assumes "newline \<notin> set l"
    and "\<forall>i. 1 \<le> i \<and> Suc i < length l \<longrightarrow> \<not> sepc (l ! i)"
  shows "re_match dialogue_re l = None"
proof -
  let ?c = "\<lambda>_::nat. None :: string option"
  have "ms sep_tail (?c(1 \<mapsto> take (Suc k) l)) (drop (Suc k) l) = []" if "k < length l" for k
  proof (rule sep_tail_none)
    show "drop (Suc k) l = [] \<or> \<not> sepc (hd (drop (Suc k) l)) \<or> length (drop (Suc k) l) = 1"
    proof (cases "Suc (Suc k) < length l")
      case True
      then have "hd (drop (Suc k) l) = l ! Suc k"
        by (simp add: hd_drop_conv_nth)
      with assms(2) True show ?thesis by simp
    next
      case False
      with that show ?thesis by auto
    qed
  qed
  then have "ms dialogue_re ?c l = []"
    by (simp add: dialogue_re_ms [OF assms(1)])
  then show ?thesis
    by (simp add: re_match_def)
qed


section \<open>The store operations and the rows of a dialogue\<close>

lemma SubElement_fst: "fst (SubElement p t h) = lim h"
  by (simp add: SubElement_def Element_def)

lemma SubElement_lim: "lim (snd (SubElement p t h)) = Suc (lim h)"
  by (simp add: SubElement_def Element_def)

lemma SubElement_other:
  "a \<noteq> p \<Longrightarrow> a \<noteq> lim h \<Longrightarrow> cells (snd (SubElement p t h)) a = cells h a"
  by (simp add: SubElement_def Element_def)

lemma SubElement_parent:
  "p \<noteq> lim h \<Longrightarrow> cells (snd (SubElement p t h)) p =
     (cells h p)\<lparr>children := children (cells h p) @ [lim h]\<rparr>"
  by (simp add: SubElement_def Element_def)

lemma SubElement_new:
  "p \<noteq> lim h \<Longrightarrow> cells (snd (SubElement p t h)) (lim h) =
     \<lparr>tag = t, attrib = [], el_text = None, children = []\<rparr>"
  by (simp add: SubElement_def Element_def)

lemma el_set_lim: "lim (el_set a k v h) = lim h"
  by (simp add: el_set_def)

lemma el_set_other: "b \<noteq> a \<Longrightarrow> cells (el_set a k v h) b = cells h b"
  by (simp add: el_set_def)

lemma el_set_same:
  "cells (el_set a k v h) a = (cells h a)\<lparr>attrib := AList.update k v (attrib (cells h a))\<rparr>"
  by (simp add: el_set_def)

lemma set_text_lim: "lim (set_text a v h) = lim h"
  by (simp add: set_text_def)

lemma set_text_other: "b \<noteq> a \<Longrightarrow> cells (set_text a v h) b = cells h b"
  by (simp add: set_text_def)

lemma set_text_same: "cells (set_text a v h) a = (cells h a)\<lparr>el_text := v\<rparr>"
  by (simp add: set_text_def)

lemmas heap_simps = SubElement_fst SubElement_lim SubElement_other SubElement_parent
  SubElement_new el_set_lim el_set_other el_set_same set_text_lim set_text_other set_text_same

lemma line_lim:
  "lim (DialogueParser_line self d c t k h) = (case k of Normal \<Rightarrow> lim h + 4 | Thought \<Rightarrow> lim h + 5)"
  by (cases k) (simp_all add: DialogueParser_line_def Let_def case_prod_beta heap_simps)

lemma line_box:
  assumes "box self < lim h"
  shows "cells (DialogueParser_line self d c t k h) (box self) =
     (cells h (box self))\<lparr>children := children (cells h (box self)) @ [lim h]\<rparr>"
  using assms
  by (cases k) (simp_all add: DialogueParser_line_def Let_def case_prod_beta heap_simps)

lemma line_other:
  assumes "a < lim h" and "a \<noteq> box self"
  shows "cells (DialogueParser_line self d c t k h) a = cells h a"
  using assms
  by (cases k) (simp_all add: DialogueParser_line_def Let_def case_prod_beta heap_simps)

lemma line_row:
  assumes "box self < lim h"
  shows "tag (cells (DialogueParser_line self d c t k h) (lim h)) = ''div''"
    and "attrib (cells (DialogueParser_line self d c t k h) (lim h)) = [(''class'', PyStr ''dialog-row'')]"
  using assms
  by (cases k; simp add: DialogueParser_line_def Let_def case_prod_beta heap_simps)+


section \<open>Classification of dialogue lines\<close>

lemmas re_eval = Plus_def LazyPlus_def Dot_def Chars_def Digit_def Space_def newline_def
  groups_def group_def re_match_def ms.simps upt_rec is_digit_def is_space_def

lemmas heap_eval = root_heap_def sample_heap_def sample_parser_def sample_parser_heap_def
  DialogueBlock_on_create_def DialogueParser_init_def SubElement_def Element_def el_set_def
  set_text_def Let_def

lemma lines_match:
  assumes "a \<noteq> []" and "\<forall>x\<in>set (tl a). \<not> sepc x"
    and "sp \<noteq> []" and "\<forall>x\<in>set sp. sepc x"
    and "b \<noteq> []" and "\<not> sepc (hd b) \<or> tl b = []"
    and "newline \<notin> set a" and "newline \<notin> set b"
  shows "DialogueParser_lines self (a @ sp @ b) h =
           (if sp = ''>'' then DialogueParser_line self Left (Some a) (Some b) Normal h
            else if sp = ''<'' then DialogueParser_line self Right (Some a) (Some b) Normal h
            else if sp = ''>>'' then DialogueParser_line self Left (Some a) (Some b) Thought h
            else if sp = ''<<'' then DialogueParser_line self Right (Some a) (Some b) Thought h
            else h)"
proof -
  from dialogue_match [OF assms]
  obtain m where "re_match dialogue_re (a @ sp @ b) = Some m"
    and "groups m = [Some a, Some sp, Some b]"
    by blast
  with assms(1) show ?thesis
    by (simp add: DialogueParser_lines_def)
qed

lemma lines_narration:
  assumes "l \<noteq> []" and "newline \<notin> set l"
    and "\<forall>i. 1 \<le> i \<and> Suc i < length l \<longrightarrow> \<not> sepc (l ! i)"
  shows "DialogueParser_lines self l h =
           DialogueParser_line self Center (Some []) (Some l) Normal h"
  using assms(1) dialogue_nomatch [OF assms(2,3)]
  by (simp add: DialogueParser_lines_def)

lemma spec_re_mixed: "map_option groups (re_match spec_dialogue_re ''a<>b'') =
    Some [Some ''a'', Some ''<'', Some ''>b'']"
  by (simp add: spec_dialogue_re_def re_eval)

lemma code_re_mixed: "map_option groups (re_match dialogue_re ''a<>b'') =
    Some [Some ''a'', Some ''<>'', Some ''b'']"
  by (simp add: dialogue_re_def re_eval)

lemma sample_parser_box:
  "box (sample_parser t) = 3" "lim (sample_parser_heap t) = 4"
  "children (cells (sample_parser_heap t) 3) = []"
  by (simp_all add: heap_eval)


section \<open>The pattern of inline code\<close>

lemma take_length_dropWhile:
  "take (length s - length (dropWhile p s)) s = takeWhile p s"
proof -
  have "length s = length (takeWhile p s) + length (dropWhile p s)"
    by (metis length_append takeWhile_dropWhile_id)
  then have "length s - length (dropWhile p s) = length (takeWhile p s)"
    by simp
  then show ?thesis
    by (simp add: takeWhile_eq_take [symmetric])
qed

lemma ms_Group_Star_Atom_first:
  "\<exists>rest. ms (Group n (Star (Atom p))) c s = (c(n \<mapsto> takeWhile p s), dropWhile p s) # rest"
proof -
  from ms_Star_Atom_first [of p c s]
  obtain rest where "ms (Star (Atom p)) c s = (c, dropWhile p s) # rest"
    by blast
  then show ?thesis
    by (simp add: ms.simps(7) take_length_dropWhile)
qed

lemma groups_of_2:
  "groups \<lparr>m_caps = c, m_ngroups = 2, m_start = i, m_end = j\<rparr> = [c 1, c 2]"
  by (simp add: groups_def upt_rec numeral_2_eq_2)

lemma ngroups_inline_re: "ngroups inline_re = 2"
  by (simp add: inline_re_def Dot_def Chars_def)

lemma inline_sigil:
  assumes "x \<in> set ''#-''"
  shows "\<exists>m. re_match inline_re (x # rest) = Some m
           \<and> groups m = [Some [x], Some (takeWhile (\<lambda>y. y \<noteq> newline) rest)]"
proof -
  let ?c = "\<lambda>_::nat. None :: string option"
  from ms_Group_Star_Atom_first [of 2 "\<lambda>y. y \<noteq> newline" "?c(1 \<mapsto> [x])" rest]
  obtain r where "ms (Group 2 (Star Dot)) (?c(1 \<mapsto> [x])) rest =
      (?c(1 \<mapsto> [x], 2 \<mapsto> takeWhile (\<lambda>y. y \<noteq> newline) rest), dropWhile (\<lambda>y. y \<noteq> newline) rest) # r"
    by (auto simp: Dot_def)
  moreover from assms have "ms (Opt (Group 1 (Chars ''#-''))) ?c (x # rest) =
      [(?c(1 \<mapsto> [x]), rest), (?c, x # rest)]"
    by (simp add: ms.simps(6) ms.simps(7) Chars_def ms_Atom_Cons)
  ultimately have "\<exists>r'. ms inline_re ?c (x # rest) =
      (?c(1 \<mapsto> [x], 2 \<mapsto> takeWhile (\<lambda>y. y \<noteq> newline) rest), dropWhile (\<lambda>y. y \<noteq> newline) rest) # r'"
    by (simp add: inline_re_def ms.simps(2))
  then show ?thesis
    by (auto simp: re_match_def ngroups_inline_re groups_of_2)
qed

lemma inline_no_sigil:
  assumes "s = [] \<or> hd s \<notin> set ''#-''"
  shows "\<exists>m. re_match inline_re s = Some m
           \<and> groups m = [None, Some (takeWhile (\<lambda>y. y \<noteq> newline) s)]"
proof -
  let ?c = "\<lambda>_::nat. None :: string option"
  from ms_Group_Star_Atom_first [of 2 "\<lambda>y. y \<noteq> newline" ?c s]
  obtain r where "ms (Group 2 (Star Dot)) ?c s =
      (?c(2 \<mapsto> takeWhile (\<lambda>y. y \<noteq> newline) s), dropWhile (\<lambda>y. y \<noteq> newline) s) # r"
    by (auto simp: Dot_def)
  moreover from assms have "ms (Opt (Group 1 (Chars ''#-''))) ?c s = [(?c, s)]"
    by (cases s) (simp_all add: ms.simps(6) ms.simps(7) Chars_def ms_Atom_Cons ms_Atom_Nil)
  ultimately have "\<exists>r'. ms inline_re ?c s =
      (?c(2 \<mapsto> takeWhile (\<lambda>y. y \<noteq> newline) s), dropWhile (\<lambda>y. y \<noteq> newline) s) # r'"
    by (simp add: inline_re_def ms.simps(2))
  then show ?thesis
    by (auto simp: re_match_def ngroups_inline_re groups_of_2)
qed


section \<open>The pattern of the outline\<close>

lemma dotted_simps [simp]: "dotted [] = []" "dotted (g # gs) = CHR ''.'' # g @ dotted gs"
  by (simp_all add: dotted_def)

lemma ms_Plus_Atom_first:
  assumes "s \<noteq> []" and "\<forall>x\<in>set s. p x" and "R = [] \<or> \<not> p (hd R)"
  shows "\<exists>r. ms (Plus (Atom p)) c (s @ R) = (c, R) # r"
proof -
  from assms(1) obtain x xs where s: "s = x # xs" by (cases s) auto
  from assms(2,3) s have "dropWhile p (xs @ R) = R"
    by (cases R) (simp_all add: dropWhile_append)
  with ms_Star_Atom_first [of p c "xs @ R"]
  obtain r where "ms (Star (Atom p)) c (xs @ R) = (c, R) # r"
    by auto
  with s assms(2) show ?thesis
    by (simp add: ms_Plus_Atom_Cons)
qed

lemma ms_id_tail_none:
  assumes "R = [] \<or> hd R \<noteq> CHR ''.''"
  shows "ms id_tail c R = []"
  using assms
  by (cases R) (simp_all add: id_tail_def ms.simps(7) ms.simps(2) Chars_def ms_Atom_Nil ms_Atom_Cons)

lemma ms_id_tail_first:
  assumes "digits g" and "R = [] \<or> \<not> is_digit (hd R)"
  shows "\<exists>r. ms id_tail c (CHR ''.'' # g @ R) = (c(2 \<mapsto> CHR ''.'' # g), R) # r"
proof -
  from assms obtain r where "ms (Plus Digit) c (g @ R) = (c, R) # r"
    using ms_Plus_Atom_first [of g is_digit R c] by (auto simp: digits_def Digit_def)
  then show ?thesis
    by (simp add: id_tail_def ms.simps(7) ms.simps(2) Chars_def ms_Atom_Cons)
qed

lemma ms_Star_id_tail_first:
  assumes "\<forall>g\<in>set segs. digits g"
    and "R = [] \<or> (\<not> is_digit (hd R) \<and> hd R \<noteq> CHR ''.'')"
  shows "\<exists>c' r. ms (Star id_tail) c (dotted segs @ R) = (c', R) # r"
  using assms(1)
proof (induction segs arbitrary: c)
  case Nil
  from assms(2) have "ms id_tail c R = []"
    by (intro ms_id_tail_none) auto
  then show ?case
    by (simp add: ms.simps(4))
next
  case (Cons g gs)
  let ?R = "dotted gs @ R"
  have "?R = [] \<or> \<not> is_digit (hd ?R)"
    using assms(2) by (cases gs) (auto simp: is_digit_def)
  moreover from Cons.prems have "digits g" by simp
  ultimately obtain r1 where
    "ms id_tail c (CHR ''.'' # g @ ?R) = (c(2 \<mapsto> CHR ''.'' # g), ?R) # r1"
    using ms_id_tail_first by blast
  moreover from Cons obtain c' r2 where
    "ms (Star id_tail) (c(2 \<mapsto> CHR ''.'' # g)) ?R = (c', R) # r2"
    by force
  ultimately show ?case
    by (simp add: ms.simps(4) [of id_tail c])
qed


lemma ms_Seq_first:
  assumes "ms r1 c s = (c1, s1) # r" and "ms r2 c1 s1 = x # r'"
  shows "\<exists>r''. ms (Seq r1 r2) c s = x # r''"
  using assms by (simp add: ms.simps(2))

lemma syllabus_re_unfold:
  "syllabus_re = Seq (Group 1 (Seq (Plus Digit) (Star id_tail)))
                     (Seq (Plus Space) (Group 3 (Star Dot)))"
  by (simp add: syllabus_re_def id_tail_def)

lemma ngroups_syllabus_re: "ngroups syllabus_re = 3"
  by (simp add: syllabus_re_def Plus_def Digit_def Space_def Dot_def Chars_def)

lemma space_not_digit: "is_space x \<Longrightarrow> \<not> is_digit x \<and> x \<noteq> CHR ''.''"
  by (auto simp: is_space_def is_digit_def)

lemma syllabus_ms_first:
  assumes "digits d0" and "\<forall>g\<in>set segs. digits g"
    and "w \<noteq> []" and "\<forall>x\<in>set w. is_space x"
    and "u = [] \<or> \<not> is_space (hd u)"
  shows "\<exists>c' rest r. ms syllabus_re c (d0 @ dotted segs @ w @ u) =
           (c'(1 \<mapsto> d0 @ dotted segs, 3 \<mapsto> takeWhile (\<lambda>y. y \<noteq> newline) u), rest) # r"
proof -
  let ?R = "w @ u" and ?d = "d0 @ dotted segs"
  have hdR: "is_space (hd ?R)"
    using assms(3,4) by (cases w) auto
  then have R: "?R = [] \<or> (\<not> is_digit (hd ?R) \<and> hd ?R \<noteq> CHR ''.'')"
    using space_not_digit by blast
  have "dotted segs @ ?R = [] \<or> \<not> is_digit (hd (dotted segs @ ?R))"
    using R by (cases segs) (auto simp: is_digit_def)
  with assms(1) obtain r1 where
    1: "ms (Plus Digit) c (d0 @ dotted segs @ ?R) = (c, dotted segs @ ?R) # r1"
    using ms_Plus_Atom_first [of d0 is_digit "dotted segs @ ?R" c]
    by (auto simp: digits_def Digit_def)
  from ms_Star_id_tail_first [OF assms(2) R, of c] obtain c' r2 where
    2: "ms (Star id_tail) c (dotted segs @ ?R) = (c', ?R) # r2"
    by blast
  from 1 2 have "\<exists>r3. ms (Seq (Plus Digit) (Star id_tail)) c (?d @ ?R) = (c', ?R) # r3"
    by (simp add: ms.simps(2))
  then have "\<exists>r4. ms (Group 1 (Seq (Plus Digit) (Star id_tail))) c (?d @ ?R) =
      (c'(1 \<mapsto> ?d), ?R) # r4"
    by (auto simp: ms.simps(7))
  then obtain r4 where 4: "ms (Group 1 (Seq (Plus Digit) (Star id_tail))) c (?d @ ?R) =
      (c'(1 \<mapsto> ?d), ?R) # r4"
    by blast
  from assms(3,4,5) obtain r5 where
    5: "ms (Plus Space) (c'(1 \<mapsto> ?d)) (w @ u) = (c'(1 \<mapsto> ?d), u) # r5"
    using ms_Plus_Atom_first [of w is_space u "c'(1 \<mapsto> ?d)"]
    by (auto simp: Space_def)
  from ms_Group_Star_Atom_first [of 3 "\<lambda>y. y \<noteq> newline" "c'(1 \<mapsto> ?d)" u]
  obtain r6 where 6: "ms (Group 3 (Star Dot)) (c'(1 \<mapsto> ?d)) u =
      (c'(1 \<mapsto> ?d, 3 \<mapsto> takeWhile (\<lambda>y. y \<noteq> newline) u), dropWhile (\<lambda>y. y \<noteq> newline) u) # r6"
    by (auto simp: Dot_def)
  from ms_Seq_first [OF 5 6] obtain r7 where
    7: "ms (Seq (Plus Space) (Group 3 (Star Dot))) (c'(1 \<mapsto> ?d)) (w @ u) =
      (c'(1 \<mapsto> ?d, 3 \<mapsto> takeWhile (\<lambda>y. y \<noteq> newline) u), dropWhile (\<lambda>y. y \<noteq> newline) u) # r7"
    by blast
  from ms_Seq_first [OF 4 7]
  have "\<exists>r8. ms syllabus_re c (?d @ ?R) =
      (c'(1 \<mapsto> ?d, 3 \<mapsto> takeWhile (\<lambda>y. y \<noteq> newline) u), dropWhile (\<lambda>y. y \<noteq> newline) u) # r8"
    by (simp only: syllabus_re_unfold)
  then show ?thesis
    by auto
qed

lemma syllabus_match:
  assumes "digits d0" and "\<forall>g\<in>set segs. digits g"
    and "w \<noteq> []" and "\<forall>x\<in>set w. is_space x"
    and "u = [] \<or> \<not> is_space (hd u)"
  shows "\<exists>m. re_match syllabus_re (d0 @ dotted segs @ w @ u) = Some m
           \<and> group m 1 = Inr (Some (d0 @ dotted segs))
           \<and> group m 3 = Inr (Some (takeWhile (\<lambda>y. y \<noteq> newline) u))"
proof -
  from syllabus_ms_first [OF assms, of "\<lambda>_. None"]
  obtain c' rest r where "ms syllabus_re (\<lambda>_. None) (d0 @ dotted segs @ w @ u) =
      (c'(1 \<mapsto> d0 @ dotted segs, 3 \<mapsto> takeWhile (\<lambda>y. y \<noteq> newline) u), rest) # r"
    by blast
  then show ?thesis
    by (simp add: re_match_def ngroups_syllabus_re group_def)
qed

lemma ms_Plus_Atom_mem:
  assumes "(c', s') \<in> set (ms (Plus (Atom p)) c s)"
  shows "\<exists>pre. pre \<noteq> [] \<and> (\<forall>x\<in>set pre. p x) \<and> s = pre @ s'"
proof (cases s)
  case Nil
  with assms show ?thesis by (simp add: ms_Plus_Atom_Nil)
next
  case (Cons x xs)
  with assms have px: "p x" and "(c', s') \<in> set (ms (Star (Atom p)) c xs)"
    by (auto simp: ms_Plus_Atom_Cons split: if_splits)
  from ms_Star_Atom_mem [OF this(2)] obtain pre where "xs = pre @ s'" "\<forall>x\<in>set pre. p x"
    by blast
  with px Cons have "x # pre \<noteq> [] \<and> (\<forall>y\<in>set (x # pre). p y) \<and> s = (x # pre) @ s'"
    by simp
  then show ?thesis by blast
qed

lemma ms_id_tail_mem:
  assumes "(c', s') \<in> set (ms id_tail c s)"
  shows "\<exists>g. digits g \<and> s = CHR ''.'' # g @ s'"
proof (cases s)
  case Nil
  with assms show ?thesis
    by (simp add: ms_id_tail_none)
next
  case (Cons x xs)
  from assms obtain c0 where "(c0, s') \<in> set (ms (Seq (Chars ''.'') (Plus Digit)) c s)"
    by (auto simp: id_tail_def ms.simps(7))
  with Cons have "x = CHR ''.''" and "(c0, s') \<in> set (ms (Plus (Atom is_digit)) c xs)"
    by (auto simp: ms.simps(2) Chars_def ms_Atom_Cons Digit_def split: if_splits)
  from ms_Plus_Atom_mem [OF this(2)] obtain g where "g \<noteq> []" "\<forall>x\<in>set g. is_digit x" "xs = g @ s'"
    by blast
  with Cons \<open>x = CHR ''.''\<close> show ?thesis
    by (auto simp: digits_def)
qed

lemma ms_Star_id_tail_mem:
  "(c', s') \<in> set (ms (Star id_tail) c s) \<Longrightarrow>
     \<exists>segs. (\<forall>g\<in>set segs. digits g) \<and> s = dotted segs @ s'"
proof (induction "length s" arbitrary: s c rule: less_induct)
  case less
  from less.prems have "(c', s') = (c, s) \<or>
      (\<exists>c1 s1. (c1, s1) \<in> set (ms id_tail c s) \<and> length s1 < length s
         \<and> (c', s') \<in> set (ms (Star id_tail) c1 s1))"
    by (auto simp: ms.simps(4) [of id_tail c s] split: if_splits)
  then show ?case
  proof
    assume "(c', s') = (c, s)"
    then have "(\<forall>g\<in>set []. digits g) \<and> s = dotted [] @ s'" by simp
    then show ?thesis by blast
  next
    assume "\<exists>c1 s1. (c1, s1) \<in> set (ms id_tail c s) \<and> length s1 < length s
         \<and> (c', s') \<in> set (ms (Star id_tail) c1 s1)"
    then obtain c1 s1 where a: "(c1, s1) \<in> set (ms id_tail c s)" "length s1 < length s"
      "(c', s') \<in> set (ms (Star id_tail) c1 s1)"
      by blast
    from less.hyps [OF a(2,3)] obtain segs where "\<forall>g\<in>set segs. digits g" "s1 = dotted segs @ s'"
      by blast
    moreover from ms_id_tail_mem [OF a(1)] obtain g where "digits g" "s = CHR ''.'' # g @ s1"
      by blast
    ultimately have "(\<forall>h\<in>set (g # segs). digits h) \<and> s = dotted (g # segs) @ s'"
      by simp
    then show ?thesis by blast
  qed
qed


lemma ms_Seq_mem:
  assumes "(c', s') \<in> set (ms (Seq r1 r2) c s)"
  shows "\<exists>c1 s1. (c1, s1) \<in> set (ms r1 c s) \<and> (c', s') \<in> set (ms r2 c1 s1)"
  using assms by (auto simp: ms.simps(2))

lemma ms_Group_mem:
  assumes "(c', s') \<in> set (ms (Group n r) c s)"
  shows "\<exists>c0. (c0, s') \<in> set (ms r c s)"
  using assms by (auto simp: ms.simps(7))

lemma syllabus_sound:
  assumes "ms syllabus_re c b \<noteq> []"
  shows "\<exists>d0 segs x rest. digits d0 \<and> (\<forall>g\<in>set segs. digits g) \<and> is_space x
           \<and> b = d0 @ dotted segs @ x # rest"
proof -
  from assms obtain cf sf where "(cf, sf) \<in> set (ms syllabus_re c b)"
    by (cases "ms syllabus_re c b") auto
  then have "(cf, sf) \<in> set (ms (Seq (Group 1 (Seq (Plus Digit) (Star id_tail)))
                     (Seq (Plus Space) (Group 3 (Star Dot)))) c b)"
    by (simp only: syllabus_re_unfold)
  from ms_Seq_mem [OF this]
  obtain c1 s1 where 1: "(c1, s1) \<in> set (ms (Group 1 (Seq (Plus Digit) (Star id_tail))) c b)"
    and "(cf, sf) \<in> set (ms (Seq (Plus Space) (Group 3 (Star Dot))) c1 s1)"
    by blast
  from ms_Seq_mem [OF this(2)]
  obtain c2 s2 where "(c2, s2) \<in> set (ms (Plus Space) c1 s1)"
    by blast
  then have "(c2, s2) \<in> set (ms (Plus (Atom is_space)) c1 s1)"
    by (simp only: Space_def)
  from ms_Plus_Atom_mem [OF this] obtain w where w: "w \<noteq> []" "\<forall>x\<in>set w. is_space x" "s1 = w @ s2"
    by blast
  from ms_Group_mem [OF 1]
  obtain c0 where "(c0, s1) \<in> set (ms (Seq (Plus Digit) (Star id_tail)) c b)"
    by blast
  from ms_Seq_mem [OF this]
  obtain ca sa where "(ca, sa) \<in> set (ms (Plus Digit) c b)"
    and 2: "(c0, s1) \<in> set (ms (Star id_tail) ca sa)"
    by blast
  from this(1) have "(ca, sa) \<in> set (ms (Plus (Atom is_digit)) c b)"
    by (simp only: Digit_def)
  from ms_Plus_Atom_mem [OF this] obtain d0 where d0: "d0 \<noteq> []" "\<forall>x\<in>set d0. is_digit x" "b = d0 @ sa"
    by blast
  from ms_Star_id_tail_mem [OF 2] obtain segs where segs: "\<forall>g\<in>set segs. digits g" "sa = dotted segs @ s1"
    by blast
  from w obtain x w' where "w = x # w'" by (cases w) auto
  with w d0 segs have "digits d0 \<and> (\<forall>g\<in>set segs. digits g) \<and> is_space x
           \<and> b = d0 @ dotted segs @ x # (w' @ s2)"
    by (simp add: digits_def)
  then show ?thesis by blast
qed

lemma syllabus_complete:
  assumes "digits d0" and "\<forall>g\<in>set segs. digits g" and "is_space x"
  shows "\<exists>m. re_match syllabus_re (d0 @ dotted segs @ x # rest) = Some m"
proof -
  let ?w = "takeWhile is_space (x # rest)" and ?u = "dropWhile is_space (x # rest)"
  have "?w \<noteq> []" using assms(3) by simp
  moreover have "\<forall>y\<in>set ?w. is_space y"
    by (meson set_takeWhileD)
  moreover have "?u = [] \<or> \<not> is_space (hd ?u)"
    by (metis hd_dropWhile)
  ultimately obtain m where "re_match syllabus_re (d0 @ dotted segs @ ?w @ ?u) = Some m"
    using syllabus_match [OF assms(1,2), of ?w ?u] by blast
  then show ?thesis
    by (simp only: takeWhile_dropWhile_id) blast
qed

lemma syllabus_match_iff:
  "re_match syllabus_re b \<noteq> None \<longleftrightarrow>
     (\<exists>d0 segs x rest. digits d0 \<and> (\<forall>g\<in>set segs. digits g) \<and> is_space x
        \<and> b = d0 @ dotted segs @ x # rest)"
proof
  assume "re_match syllabus_re b \<noteq> None"
  then have "ms syllabus_re (\<lambda>_. None) b \<noteq> []"
    by (auto simp: re_match_def)
  then show "\<exists>d0 segs x rest. digits d0 \<and> (\<forall>g\<in>set segs. digits g) \<and> is_space x
        \<and> b = d0 @ dotted segs @ x # rest"
    by (rule syllabus_sound)
next
  assume "\<exists>d0 segs x rest. digits d0 \<and> (\<forall>g\<in>set segs. digits g) \<and> is_space x
        \<and> b = d0 @ dotted segs @ x # rest"
  then show "re_match syllabus_re b \<noteq> None"
    using syllabus_complete by fastforce
qed

lemma split_no_sep: "sep \<notin> set s \<Longrightarrow> split sep s = [s]"
  by (induction s) auto

lemma split_append_sep: "sep \<notin> set s \<Longrightarrow> split sep (s @ sep # t) = s # split sep t"
  by (induction s) auto

lemma split_dotted:
  assumes "CHR ''.'' \<notin> set d0" and "\<forall>g\<in>set segs. CHR ''.'' \<notin> set g"
  shows "split CHR ''.'' (d0 @ dotted segs) = d0 # segs"
  using assms
proof (induction segs arbitrary: d0)
  case Nil
  then show ?case by (simp add: split_no_sep)
next
  case (Cons g gs)
  then show ?case by (simp add: split_append_sep)
qed

lemma dot_not_digit: "\<not> is_digit CHR ''.''"
  by (simp add: is_digit_def)

lemma digits_no_dot: "digits g \<Longrightarrow> CHR ''.'' \<notin> set g"
  unfolding digits_def using dot_not_digit by blast

lemma syllabus_run_match:
  assumes "digits d0" and "\<forall>g\<in>set segs. digits g"
    and "w \<noteq> []" and "\<forall>x\<in>set w. is_space x"
    and "u = [] \<or> \<not> is_space (hd u)"
  shows "Syllabus_run parent ((d0 @ dotted segs @ w @ u) # bs) h =
           (Inr False,
            set_text (lim h)
              (Some ((d0 @ dotted segs) @ '' '' @ takeWhile (\<lambda>y. y \<noteq> newline) u))
              (el_set (lim h) ''id'' (PyStr (d0 @ dotted segs))
                 (snd (SubElement parent (''h'' @ str_nat (Suc (length segs))) h))),
            [] # bs)"
proof -
  from syllabus_match [OF assms]
  obtain m where "re_match syllabus_re (d0 @ dotted segs @ w @ u) = Some m"
    and "group m 1 = Inr (Some (d0 @ dotted segs))"
    and "group m 3 = Inr (Some (takeWhile (\<lambda>y. y \<noteq> newline) u))"
    by blast
  moreover have "split CHR ''.'' (d0 @ dotted segs) = d0 # segs"
    using assms(1,2) by (intro split_dotted) (auto dest: digits_no_dot)
  ultimately show ?thesis
    by (simp add: Syllabus_run_def case_prod_beta Let_def SubElement_fst)
qed

lemma sample_id: "digits ''1''" "\<forall>g\<in>set [''2'']. digits g" "is_space CHR '' ''"
  by (simp_all add: digits_def is_digit_def is_space_def)

lemma accepted_shape:
  assumes "Syllabus_test parent b \<noteq> None"
  shows "\<exists>d0 segs w u. digits d0 \<and> (\<forall>g\<in>set segs. digits g) \<and> w \<noteq> []
           \<and> (\<forall>x\<in>set w. is_space x) \<and> (u = [] \<or> \<not> is_space (hd u))
           \<and> b = d0 @ dotted segs @ w @ u"
proof -
  from assms obtain d0 segs x rest where f: "digits d0" "\<forall>g\<in>set segs. digits g" "is_space x"
    "b = d0 @ dotted segs @ x # rest"
    unfolding Syllabus_test_def syllabus_match_iff by blast
  let ?w = "takeWhile is_space (x # rest)" and ?u = "dropWhile is_space (x # rest)"
  have "?w \<noteq> []" using f(3) by simp
  moreover have "\<forall>y\<in>set ?w. is_space y"
    by (meson set_takeWhileD)
  moreover have "?u = [] \<or> \<not> is_space (hd ?u)"
    by (metis hd_dropWhile)
  moreover have "b = d0 @ dotted segs @ ?w @ ?u"
    using f(4) by (simp only: takeWhile_dropWhile_id)
  ultimately show ?thesis
    using f(1,2) by blast
qed


section \<open>The rows of a whole dialogue block\<close>

lemma lines_cases:
  "(l = [] \<and> DialogueParser_lines self l h = h)
   \<or> (l \<noteq> [] \<and> (DialogueParser_lines self l h = h
        \<or> (\<exists>d c t k. DialogueParser_lines self l h = DialogueParser_line self d c t k h)))"
  by (auto simp: DialogueParser_lines_def split: option.splits list.splits)

lemma lines_turn:
  "DialogueParser_lines self l h =
     (case turn_of l of
        None \<Rightarrow> h
      | Some (d, c, u, k) \<Rightarrow> DialogueParser_line self d c u k h)"
  by (simp add: DialogueParser_lines_def turn_of_def split: option.splits list.splits)

lemma turn_of_Nil: "turn_of [] = None"
  by (simp add: turn_of_def)

lemma turns_simps:
  "turns [] = []"
  "turn_of l = None \<Longrightarrow> turns (l # ls) = turns ls"
  "turn_of l = Some x \<Longrightarrow> turns (l # ls) = x # turns ls"
  by (simp_all add: turns_def)

lemma line_lim_less: "lim h < lim (DialogueParser_line self d c t k h)"
  by (cases k) (simp_all add: line_lim)

lemma loop_rows:
  assumes "box self < lim h"
  shows "\<exists>rows.
           lim h \<le> lim (DialogueParser_loop self ls h)
           \<and> (\<forall>a<lim h. a \<noteq> box self \<longrightarrow> cells (DialogueParser_loop self ls h) a = cells h a)
           \<and> cells (DialogueParser_loop self ls h) (box self) =
               (cells h (box self))\<lparr>children := children (cells h (box self)) @ rows\<rparr>
           \<and> length rows \<le> length (filter (\<lambda>l. l \<noteq> []) ls)
           \<and> (\<forall>r\<in>set rows. lim h \<le> r \<and> r < lim (DialogueParser_loop self ls h)
                 \<and> tag (cells (DialogueParser_loop self ls h) r) = ''div''
                 \<and> attrib (cells (DialogueParser_loop self ls h) r) =
                     [(''class'', PyStr ''dialog-row'')])
           \<and> length rows = length (turns ls)
           \<and> distinct rows"
  using assms
proof (induction ls arbitrary: h)
  case Nil
  have "cells h (box self) = (cells h (box self))\<lparr>children := children (cells h (box self)) @ []\<rparr>"
    by simp
  then show ?case
    by (intro exI [of _ "[]"]) (simp add: turns_simps)
next
  case (Cons l ls)
  let ?h1 = "DialogueParser_lines self l h"
  let ?h' = "DialogueParser_loop self ls ?h1"
  show ?case
  proof (cases "turn_of l")
    case None
    then have same: "?h1 = h"
      by (simp add: lines_turn)
    from Cons.IH [OF Cons.prems] obtain rows where
      "lim h \<le> lim (DialogueParser_loop self ls h)"
      "\<forall>a<lim h. a \<noteq> box self \<longrightarrow> cells (DialogueParser_loop self ls h) a = cells h a"
      "cells (DialogueParser_loop self ls h) (box self) =
         (cells h (box self))\<lparr>children := children (cells h (box self)) @ rows\<rparr>"
      "length rows \<le> length (filter (\<lambda>l. l \<noteq> []) ls)"
      "\<forall>r\<in>set rows. lim h \<le> r \<and> r < lim (DialogueParser_loop self ls h)
                 \<and> tag (cells (DialogueParser_loop self ls h) r) = ''div''
                 \<and> attrib (cells (DialogueParser_loop self ls h) r) =
                     [(''class'', PyStr ''dialog-row'')]"
      "length rows = length (turns ls)" "distinct rows"
      by blast
    with same None show ?thesis
      by (intro exI [of _ rows]) (simp add: turns_simps)
  next
    case (Some x)
    obtain d c t k where x: "x = (d, c, t, k)"
      by (cases x) auto
    with Some have row: "?h1 = DialogueParser_line self d c t k h"
      by (simp add: lines_turn)
    from Some have nonblank: "l \<noteq> []"
      using turn_of_Nil by auto
    have lt: "lim h < lim ?h1"
      unfolding row by (rule line_lim_less)
    with Cons.prems have b1: "box self < lim ?h1" by simp
    from Cons.IH [OF b1] obtain rows where r:
      "lim ?h1 \<le> lim ?h'"
      "\<forall>a<lim ?h1. a \<noteq> box self \<longrightarrow> cells ?h' a = cells ?h1 a"
      "cells ?h' (box self) =
         (cells ?h1 (box self))\<lparr>children := children (cells ?h1 (box self)) @ rows\<rparr>"
      "length rows \<le> length (filter (\<lambda>l. l \<noteq> []) ls)"
      "\<forall>r\<in>set rows. lim ?h1 \<le> r \<and> r < lim ?h'
                 \<and> tag (cells ?h' r) = ''div''
                 \<and> attrib (cells ?h' r) = [(''class'', PyStr ''dialog-row'')]"
      "length rows = length (turns ls)" "distinct rows"
      by blast
    have box1: "cells ?h1 (box self) =
        (cells h (box self))\<lparr>children := children (cells h (box self)) @ [lim h]\<rparr>"
      unfolding row using Cons.prems by (rule line_box)
    have other1: "cells ?h1 a = cells h a" if "a < lim h" "a \<noteq> box self" for a
      unfolding row using that by (rule line_other)
    have new1: "tag (cells ?h1 (lim h)) = ''div''"
      "attrib (cells ?h1 (lim h)) = [(''class'', PyStr ''dialog-row'')]"
      unfolding row using Cons.prems by (rule line_row)+
    have keep: "cells ?h' (lim h) = cells ?h1 (lim h)"
      using r(2) lt Cons.prems by simp
    have 1: "lim h \<le> lim ?h'" using lt r(1) by simp
    have 2: "\<forall>a<lim h. a \<noteq> box self \<longrightarrow> cells ?h' a = cells h a"
      using r(2) lt other1 by simp
    have 3: "cells ?h' (box self) =
        (cells h (box self))\<lparr>children := children (cells h (box self)) @ (lim h # rows)\<rparr>"
      using r(3) box1 by simp
    have 4: "length (lim h # rows) \<le> length (filter (\<lambda>l. l \<noteq> []) (l # ls))"
      using r(4) nonblank by simp
    have 5: "\<forall>r\<in>set (lim h # rows). lim h \<le> r \<and> r < lim ?h'
                 \<and> tag (cells ?h' r) = ''div''
                 \<and> attrib (cells ?h' r) = [(''class'', PyStr ''dialog-row'')]"
      using r(5) r(1) lt keep new1 by auto
    have 6: "length (lim h # rows) = length (turns (l # ls))"
      using r(6) Some by (simp add: turns_simps)
    have 7: "distinct (lim h # rows)"
      using r(5,7) lt by auto
    from 1 2 3 4 5 6 7 show ?thesis
      by (intro exI [of _ "lim h # rows"]) simp
  qed
qed

lemma SubElement_new_at:
  "a = lim h \<Longrightarrow> p \<noteq> lim h \<Longrightarrow> cells (snd (SubElement p t h)) a =
     \<lparr>tag = t, attrib = [], el_text = None, children = []\<rparr>"
  by (simp add: SubElement_new)

lemma on_end_result:
  assumes alloc: "blk < lim h" and btext: "el_text (cells h blk) = Some t"
  shows "\<exists>h' rows br.
           DialogueBlock_on_end argument blk h = (Inr (), h')
           \<and> cells h' blk = (cells h blk)\<lparr>el_text := Some [],
                 children := children (cells h blk) @ [lim h, Suc (lim h), br]\<rparr>
           \<and> cells h' (lim h) =
               \<lparr>tag = ''div'', attrib = [(''class'', PyStr ''message-title'')],
                el_text = None, children = []\<rparr>
           \<and> cells h' (Suc (lim h)) =
               \<lparr>tag = ''div'', attrib = [(''class'', PyStr ''dialog-container'')],
                el_text = None, children = rows\<rparr>
           \<and> cells h' br = \<lparr>tag = ''br'', attrib = [], el_text = None, children = []\<rparr>
           \<and> length rows \<le> length (filter (\<lambda>l. l \<noteq> []) (split newline t))
           \<and> (\<forall>r\<in>set rows. tag (cells h' r) = ''div''
                 \<and> attrib (cells h' r) = [(''class'', PyStr ''dialog-row'')])
           \<and> length rows = length (turns (split newline t))
           \<and> distinct rows"
proof -
  let ?self = "\<lparr>dialogue = Some t, title = lim h, block = blk, box = Suc (lim h)\<rparr>"
  let ?h1 = "snd (SubElement blk ''div'' h)"
  let ?h2 = "snd (SubElement blk ''div'' ?h1)"
  let ?h3 = "el_set (lim h) ''class'' (PyStr ''message-title'') ?h2"
  let ?h4 = "el_set (Suc (lim h)) ''class'' (PyStr ''dialog-container'') ?h3"
  let ?h5 = "DialogueParser_loop ?self (split newline t) ?h4"
  let ?br = "lim ?h5"
  let ?h6 = "snd (SubElement blk ''br'' ?h5)"
  let ?h7 = "set_text blk (Some []) ?h6"
  from alloc have ne: "blk \<noteq> lim h" "blk \<noteq> Suc (lim h)" by simp_all
  have init: "DialogueParser_init (Some t) argument blk h = (?self, ?h2)"
    by (simp add: DialogueParser_init_def case_prod_beta Let_def heap_simps)
  have lim4: "lim ?h4 = Suc (Suc (lim h))"
    by (simp add: heap_simps)
  have blk4: "cells ?h4 blk = (cells h blk)\<lparr>children := children (cells h blk) @ [lim h, Suc (lim h)]\<rparr>"
    using ne by (simp add: heap_simps)
  have title4: "cells ?h4 (lim h) =
      \<lparr>tag = ''div'', attrib = [(''class'', PyStr ''message-title'')], el_text = None, children = []\<rparr>"
    using ne by (simp add: heap_simps)
  have box4: "cells ?h4 (Suc (lim h)) =
      \<lparr>tag = ''div'', attrib = [(''class'', PyStr ''dialog-container'')], el_text = None, children = []\<rparr>"
    using ne by (simp add: heap_simps SubElement_new_at)
  have "box ?self < lim ?h4"
    by (simp add: lim4)
  from loop_rows [OF this, of "split newline t"] obtain rows where r:
    "lim ?h4 \<le> lim ?h5"
    "\<forall>a<lim ?h4. a \<noteq> box ?self \<longrightarrow> cells ?h5 a = cells ?h4 a"
    "cells ?h5 (box ?self) = (cells ?h4 (box ?self))\<lparr>children := children (cells ?h4 (box ?self)) @ rows\<rparr>"
    "length rows \<le> length (filter (\<lambda>l. l \<noteq> []) (split newline t))"
    "\<forall>r\<in>set rows. lim ?h4 \<le> r \<and> r < lim ?h5 \<and> tag (cells ?h5 r) = ''div''
        \<and> attrib (cells ?h5 r) = [(''class'', PyStr ''dialog-row'')]"
    "length rows = length (turns (split newline t))" "distinct rows"
    by blast
  have lim5: "Suc (Suc (lim h)) \<le> ?br"
    using r(1) lim4 by simp
  with alloc have nb: "blk \<noteq> ?br" "lim h \<noteq> ?br" "Suc (lim h) \<noteq> ?br" by simp_all
  have blk5: "cells ?h5 blk = cells ?h4 blk"
    using r(2) alloc ne lim4 by simp
  have title5: "cells ?h5 (lim h) = cells ?h4 (lim h)"
    using r(2) lim4 by simp
  have box5: "cells ?h5 (Suc (lim h)) =
      \<lparr>tag = ''div'', attrib = [(''class'', PyStr ''dialog-container'')], el_text = None, children = rows\<rparr>"
    using r(3) box4 by simp
  have call: "DialogueParser_call ?self ?h2 = (Inr (), ?h6)"
    using btext ne by (simp add: DialogueParser_call_def case_prod_beta Let_def heap_simps)
  have res: "DialogueBlock_on_end argument blk h = (Inr (), ?h7)"
    using btext by (simp add: DialogueBlock_on_end_def init call)
  have c1: "cells ?h7 blk = (cells h blk)\<lparr>el_text := Some [],
                 children := children (cells h blk) @ [lim h, Suc (lim h), ?br]\<rparr>"
    using nb by (simp add: heap_simps blk5 blk4)
  have c2: "cells ?h7 (lim h) =
      \<lparr>tag = ''div'', attrib = [(''class'', PyStr ''message-title'')], el_text = None, children = []\<rparr>"
    using nb ne by (simp add: heap_simps title5 title4)
  have c3: "cells ?h7 (Suc (lim h)) =
      \<lparr>tag = ''div'', attrib = [(''class'', PyStr ''dialog-container'')], el_text = None, children = rows\<rparr>"
    using nb ne by (simp add: heap_simps box5)
  have c4: "cells ?h7 ?br = \<lparr>tag = ''br'', attrib = [], el_text = None, children = []\<rparr>"
    using nb by (simp add: heap_simps)
  have c5: "\<forall>r\<in>set rows. tag (cells ?h7 r) = ''div''
                 \<and> attrib (cells ?h7 r) = [(''class'', PyStr ''dialog-row'')]"
  proof
    fix a assume "a \<in> set rows"
    with r(5) have a: "lim ?h4 \<le> a" "a < ?br" "tag (cells ?h5 a) = ''div''"
      "attrib (cells ?h5 a) = [(''class'', PyStr ''dialog-row'')]"
      by blast+
    with alloc lim4 have "a \<noteq> blk" "a \<noteq> ?br" by simp_all
    then have "cells ?h7 a = cells ?h5 a"
      by (simp add: heap_simps)
    with a show "tag (cells ?h7 a) = ''div'' \<and> attrib (cells ?h7 a) = [(''class'', PyStr ''dialog-row'')]"
      by simp
  qed
  from res c1 c2 c3 c4 r(4) c5 r(6,7) show ?thesis
    by blast
qed

lemma sample_heap_block:
  "lim (sample_heap t) = 2" "el_text (cells (sample_heap t) (Suc 0)) = Some t"
  "children (cells (sample_heap t) (Suc 0)) = []"
  by (simp_all add: sample_heap_def root_heap_def DialogueBlock_on_create_def heap_simps
      SubElement_new_at)

lemma sample_turns:
  "turns (split newline (''Alice>Hello'' @ [newline, newline] @ ''Bob<<Hi!'')) =
     [(Left, Some ''Alice'', Some ''Hello'', Normal), (Right, Some ''Bob'', Some ''Hi!'', Thought)]"
proof -
  have s: "split newline (''Alice>Hello'' @ [newline, newline] @ ''Bob<<Hi!'') =
      [''Alice>Hello'', [], ''Bob<<Hi!'']"
    by (simp add: newline_def)
  have 1: "turn_of ''Alice>Hello'' = Some (Left, Some ''Alice'', Some ''Hello'', Normal)"
    by (simp add: turn_of_def dialogue_re_def re_eval)
  have 2: "turn_of ''Bob<<Hi!'' = Some (Right, Some ''Bob'', Some ''Hi!'', Thought)"
    by (simp add: turn_of_def dialogue_re_def re_eval)
  show ?thesis
    by (simp only: s) (simp add: turns_simps 1 2 turn_of_Nil)
qed


section \<open>The claims\<close>

subsection \<open>C1: classification of a dialogue line\<close>

text \<open>
  C1 (as amended). \<open>lines\<close> matches a non-blank line against the pattern of the
  source, whose separator group is a run of less-than and greater-than signs in any
  mixture. For a line without line break that splits as \<open>a @ sp @ b\<close>, where \<open>sp\<close> is the
  first separator run after the first character of the line (no separator character
  in \<open>a\<close> after its first character; \<open>b\<close> starts with another character or is the one
  character the run gave back), the row is: \<open>>\<close> left and normal, \<open><\<close> right and normal,
  \<open>>>\<close> left and inner thought, \<open><<\<close> right and inner thought, with speaker \<open>a\<close> and
  utterance \<open>b\<close>; every other run adds no row. A non-blank line in which no separator
  character stands after the first and before the last character is narration: centre,
  empty speaker, normal.
\<close>

theorem dialogue_line_classification:
  "(a \<noteq> [] \<and> (\<forall>x\<in>set (tl a). x \<notin> set ''<>'') \<and> sp \<noteq> [] \<and> (\<forall>x\<in>set sp. x \<in> set ''<>'')
      \<and> b \<noteq> [] \<and> (hd b \<notin> set ''<>'' \<or> tl b = []) \<and> newline \<notin> set a \<and> newline \<notin> set b
    \<longrightarrow> DialogueParser_lines self (a @ sp @ b) h =
          (if sp = ''>'' then DialogueParser_line self Left (Some a) (Some b) Normal h
           else if sp = ''<'' then DialogueParser_line self Right (Some a) (Some b) Normal h
           else if sp = ''>>'' then DialogueParser_line self Left (Some a) (Some b) Thought h
           else if sp = ''<<'' then DialogueParser_line self Right (Some a) (Some b) Thought h
           else h))
   \<and> (l \<noteq> [] \<and> newline \<notin> set l \<and> (\<forall>i. 1 \<le> i \<and> Suc i < length l \<longrightarrow> l ! i \<notin> set ''<>'')
    \<longrightarrow> DialogueParser_lines self l h =
          DialogueParser_line self Center (Some []) (Some l) Normal h)"
proof (intro conjI impI)
  assume "a \<noteq> [] \<and> (\<forall>x\<in>set (tl a). x \<notin> set ''<>'') \<and> sp \<noteq> [] \<and> (\<forall>x\<in>set sp. x \<in> set ''<>'')
      \<and> b \<noteq> [] \<and> (hd b \<notin> set ''<>'' \<or> tl b = []) \<and> newline \<notin> set a \<and> newline \<notin> set b"
  then have "a \<noteq> []" "\<forall>x\<in>set (tl a). \<not> sepc x" "sp \<noteq> []" "\<forall>x\<in>set sp. sepc x"
    "b \<noteq> []" "\<not> sepc (hd b) \<or> tl b = []" "newline \<notin> set a" "newline \<notin> set b"
    unfolding sepc_def by blast+
  then show "DialogueParser_lines self (a @ sp @ b) h =
          (if sp = ''>'' then DialogueParser_line self Left (Some a) (Some b) Normal h
           else if sp = ''<'' then DialogueParser_line self Right (Some a) (Some b) Normal h
           else if sp = ''>>'' then DialogueParser_line self Left (Some a) (Some b) Thought h
           else if sp = ''<<'' then DialogueParser_line self Right (Some a) (Some b) Thought h
           else h)"
    by (rule lines_match)
next
  assume "l \<noteq> [] \<and> newline \<notin> set l \<and> (\<forall>i. 1 \<le> i \<and> Suc i < length l \<longrightarrow> l ! i \<notin> set ''<>'')"
  then have "l \<noteq> []" "newline \<notin> set l" "\<forall>i. 1 \<le> i \<and> Suc i < length l \<longrightarrow> \<not> sepc (l ! i)"
    unfolding sepc_def by blast+
  then show "DialogueParser_lines self l h =
          DialogueParser_line self Center (Some []) (Some l) Normal h"
    by (rule lines_narration)
qed

text \<open>An instance: \<open>Alice>>Hello\<close> is an inner thought on the left, \<open>Hm\<close> is narration.\<close>

theorem dialogue_line_classification_witness:
  "DialogueParser_lines (sample_parser ''Alice>>Hello'') (''Alice'' @ ''>>'' @ ''Hello'')
       (sample_parser_heap ''Alice>>Hello'') =
     DialogueParser_line (sample_parser ''Alice>>Hello'') Left (Some ''Alice'') (Some ''Hello'')
       Thought (sample_parser_heap ''Alice>>Hello'')
   \<and> DialogueParser_lines (sample_parser ''Alice>>Hello'') ''Hm'' (sample_parser_heap ''Alice>>Hello'') =
     DialogueParser_line (sample_parser ''Alice>>Hello'') Center (Some []) (Some ''Hm'') Normal
       (sample_parser_heap ''Alice>>Hello'')"
  using dialogue_line_classification [of "''Alice''" "''>>''" "''Hello''"
      "sample_parser ''Alice>>Hello''" "sample_parser_heap ''Alice>>Hello''" "''Hm''"]
  by (simp add: newline_def)

text \<open>
  C1 as stated fails on a mixed run. Under the pattern the claim names, the line
  \<open>a<>b\<close> has the separator \<open><\<close> and would be a row on the right with the utterance
  \<open>>b\<close>; the code takes \<open><>\<close> as the separator and adds no row, where that row
  would have been the element 4.
\<close>

theorem mixed_separator_counterexample:
  "map_option groups (re_match spec_dialogue_re ''a<>b'') =
     Some [Some ''a'', Some ''<'', Some ''>b'']
   \<and> children (cells (DialogueParser_lines (sample_parser ''a<>b'') ''a<>b''
                         (sample_parser_heap ''a<>b''))
                 (box (sample_parser ''a<>b''))) = []
   \<and> children (cells (DialogueParser_line (sample_parser ''a<>b'') Right (Some ''a'')
                         (Some ''>b'') Normal (sample_parser_heap ''a<>b''))
                 (box (sample_parser ''a<>b''))) = [4]"
proof -
  let ?p = "sample_parser ''a<>b''" and ?h = "sample_parser_heap ''a<>b''"
  from code_re_mixed obtain m where "re_match dialogue_re ''a<>b'' = Some m"
    and "groups m = [Some ''a'', Some ''<>'', Some ''b'']"
    by auto
  then have "DialogueParser_lines ?p ''a<>b'' ?h = ?h"
    by (simp add: DialogueParser_lines_def)
  moreover have "box ?p < lim ?h"
    by (simp add: sample_parser_box)
  then have "children (cells (DialogueParser_line ?p Right (Some ''a'') (Some ''>b'') Normal ?h)
      (box ?p)) = children (cells ?h (box ?p)) @ [lim ?h]"
    by (simp only: line_box) simp
  ultimately show ?thesis
    using spec_re_mixed by (simp add: sample_parser_box)
qed


subsection \<open>C3: the attribute value of an \<open>ID\<close> rule\<close>

text \<open>
  C3. With an integer as \<open>value\<close> the attribute should hold the capture group of that
  index (so the docstring of \<open>ID.__init__\<close> says). The code stores the integer itself:
  for \<open>value = 1\<close> and a match with the groups \<open>a\<close> and \<open>b\<close>, the attribute is the
  integer 1, not the string \<open>a\<close>.
\<close>

theorem ID_integer_value_is_stored_as_is:
  "ID_handleMatch \<lparr>ID_tag = ''span'', ID_property = ''title'', ID_value = PyInt 1\<rparr>
       \<lparr>m_caps = (\<lambda>_. None)(1 \<mapsto> ''a'', 2 \<mapsto> ''b''), m_ngroups = 2, m_start = 0, m_end = 7\<rparr>
       root_heap
     = (Inr (1, 0, 7),
        root_heap\<lparr>cells := (cells root_heap)
                     (1 := \<lparr>tag = ''span'', attrib = [(''title'', PyInt 1)],
                            el_text = Some ''a'', children = []\<rparr>),
                  lim := 2\<rparr>)"
  by (simp add: ID_handleMatch_def group_def Element_def set_text_def el_set_def root_heap_def)


subsection \<open>C5: the \<open>dialogue\<close> fence\<close>

text \<open>
  C5. The formatter registered for the fence named \<open>dialogue\<close> is
  \<open>dialogue_formatter\<close>, and it wraps the raw source in a canvas and a script element:
  no row, no speaker, no utterance is produced for the line \<open>Alice>Hello\<close>.
\<close>

theorem dialogue_fence_is_not_rendered_as_rows:
  "map_of (custom_fences fence_div_format) ''dialogue'' = Some (''dialogue'', dialogue_formatter)
   \<and> dialogue_formatter ''Alice>Hello'' ''dialogue'' ''dialogue'' =
       ''<canvas></canvas><script>Alice>Hello</script>''"
  by (simp add: custom_fences_def dialogue_formatter_def)


subsection \<open>C4: variable references in inline code\<close>

text \<open>
  C4 (as amended). For a span without language whose source does not start with
  \<open>#\<close> or \<open>-\<close>, and a variable dictionary \<open>vars\<close>: the name looked up is the source
  up to its first line break, which is the whole source for a span of one line. If
  that name is a key of \<open>vars\<close> the code element shows the value stored for it,
  otherwise it shows the name itself; the call returns, it raises nothing.
\<close>

theorem inline_code_variable_lookup:
  "source = [] \<or> hd source \<notin> set ''#-'' \<Longrightarrow>
   InlineCode_call \<lparr>variable = Some vars\<rparr> highlight_code source [] css_class =
     Inr (Html (''<code id=\"block\">''
                @ (case vars (takeWhile (\<lambda>y. y \<noteq> newline) source) of
                     Some v \<Rightarrow> v
                   | None \<Rightarrow> takeWhile (\<lambda>y. y \<noteq> newline) source)
                @ ''</code>''))"
proof -
  assume "source = [] \<or> hd source \<notin> set ''#-''"
  from inline_no_sigil [OF this]
  obtain m where "re_match inline_re source = Some m"
    and "groups m = [None, Some (takeWhile (\<lambda>y. y \<noteq> newline) source)]"
    by blast
  then show ?thesis
    by (simp add: InlineCode_call_def split: option.splits)
qed

text \<open>An instance: \<open>greeting\<close> with a dictionary that holds it, and with an empty one.\<close>

theorem inline_code_variable_lookup_witness:
  "InlineCode_call \<lparr>variable = Some [''greeting'' \<mapsto> ''Hello'']\<rparr> (\<lambda>src lang cls. ())
       ''greeting'' [] ''block'' = Inr (Html ''<code id=\"block\">Hello</code>'')
   \<and> InlineCode_call \<lparr>variable = Some Map.empty\<rparr> (\<lambda>src lang cls. ())
       ''greeting'' [] ''block'' = Inr (Html ''<code id=\"block\">greeting</code>'')"
  using inline_code_variable_lookup [of "''greeting''" "[''greeting'' \<mapsto> ''Hello'']"
      "\<lambda>src lang cls. ()" "''block''"]
    inline_code_variable_lookup [of "''greeting''" Map.empty "\<lambda>src lang cls. ()" "''block''"]
  by (simp add: newline_def)

text \<open>
  C4 as stated fails on a span of two lines: for the source \<open>a\<close>, line break, \<open>b\<close>
  and a dictionary that holds this very name with the value \<open>X\<close>, the code looks up
  \<open>a\<close> only and shows \<open>a\<close>, neither the value nor the source verbatim.
\<close>

theorem inline_code_variable_counterexample:
  "sample_variable [CHR ''a'', newline, CHR ''b''] = Some ''X''
   \<and> InlineCode_call \<lparr>variable = Some sample_variable\<rparr> sample_highlight
        [CHR ''a'', newline, CHR ''b''] [] ''block'' = Inr (Html ''<code id=\"block\">a</code>'')
   \<and> InlineCode_call \<lparr>variable = Some sample_variable\<rparr> sample_highlight
        [CHR ''a'', newline, CHR ''b''] [] ''block'' \<noteq> Inr (Html ''<code id=\"block\">X</code>'')"
proof -
  have "[CHR ''a'', newline, CHR ''b''] = [] \<or> hd [CHR ''a'', newline, CHR ''b''] \<notin> set ''#-''"
    by simp
  from inline_no_sigil [OF this]
  obtain m where "re_match inline_re [CHR ''a'', newline, CHR ''b''] = Some m"
    and "groups m = [None, Some (takeWhile (\<lambda>y. y \<noteq> newline) [CHR ''a'', newline, CHR ''b''])]"
    by blast
  then have "InlineCode_call \<lparr>variable = Some sample_variable\<rparr> sample_highlight
        [CHR ''a'', newline, CHR ''b''] [] ''block'' = Inr (Html ''<code id=\"block\">a</code>'')"
    by (simp add: InlineCode_call_def sample_variable_def newline_def)
  then show ?thesis
    by (simp add: sample_variable_def newline_def)
qed


subsection \<open>C8: anchors and links in inline code\<close>

text \<open>
  C8 (as amended). For a span without language: after a leading \<open>#\<close> the result is a
  span element whose id and text are both the remainder up to its first line break;
  after a leading \<open>-\<close> it is an anchor whose href is \<open>#\<close> followed by that text and
  whose text is that text. For a span of one line this is the whole remainder.
\<close>

theorem inline_code_sigil_rendering:
  "InlineCode_call self highlight_code (CHR ''#'' # rest) [] css_class =
     Inr (Html (''<span id=\"'' @ takeWhile (\<lambda>y. y \<noteq> newline) rest @ ''\">''
                @ takeWhile (\<lambda>y. y \<noteq> newline) rest @ ''</span>''))
   \<and> InlineCode_call self highlight_code (CHR ''-'' # rest) [] css_class =
     Inr (Html (''<a href=#'' @ takeWhile (\<lambda>y. y \<noteq> newline) rest @ ''>''
                @ takeWhile (\<lambda>y. y \<noteq> newline) rest @ ''</a>''))
   \<and> (newline \<notin> set rest \<longrightarrow>
        InlineCode_call self highlight_code (CHR ''#'' # rest) [] css_class =
          Inr (Html (''<span id=\"'' @ rest @ ''\">'' @ rest @ ''</span>''))
        \<and> InlineCode_call self highlight_code (CHR ''-'' # rest) [] css_class =
          Inr (Html (''<a href=#'' @ rest @ ''>'' @ rest @ ''</a>'')))"
proof -
  let ?r = "takeWhile (\<lambda>y. y \<noteq> newline) rest"
  obtain m where m: "re_match inline_re (CHR ''#'' # rest) = Some m"
    "groups m = [Some ''#'', Some ?r]"
    using inline_sigil [of "CHR ''#''" rest] by auto
  obtain m' where m': "re_match inline_re (CHR ''-'' # rest) = Some m'"
    "groups m' = [Some ''-'', Some ?r]"
    using inline_sigil [of "CHR ''-''" rest] by auto
  have 1: "InlineCode_call self highlight_code (CHR ''#'' # rest) [] css_class =
     Inr (Html (''<span id=\"'' @ ?r @ ''\">'' @ ?r @ ''</span>''))"
    using m by (simp add: InlineCode_call_def)
  have 2: "InlineCode_call self highlight_code (CHR ''-'' # rest) [] css_class =
     Inr (Html (''<a href=#'' @ ?r @ ''>'' @ ?r @ ''</a>''))"
    using m' by (simp add: InlineCode_call_def)
  have "?r = rest" if "newline \<notin> set rest"
    using that by (intro takeWhile_eq_all_conv [THEN iffD2]) blast
  with 1 2 show ?thesis by metis
qed

text \<open>An instance: the sources \<open>#sec1\<close> and \<open>-sec1\<close>.\<close>

theorem inline_code_sigil_rendering_witness:
  "InlineCode_call \<lparr>variable = None\<rparr> (\<lambda>src lang cls. ()) ''#sec1'' [] ''block'' =
     Inr (Html ''<span id=\"sec1\">sec1</span>'')
   \<and> InlineCode_call \<lparr>variable = None\<rparr> (\<lambda>src lang cls. ()) ''-sec1'' [] ''block'' =
     Inr (Html ''<a href=#sec1>sec1</a>'')"
  using inline_code_sigil_rendering [of "\<lparr>variable = None\<rparr>" "\<lambda>src lang cls. ()" "''sec1''" "''block''"]
  by (simp add: newline_def)

text \<open>
  C8 as stated fails on a span of two lines: for the source \<open>#a\<close>, line break, \<open>b\<close>
  the id and the text are \<open>a\<close>, not the remainder of the source.
\<close>

theorem inline_code_sigil_counterexample:
  "InlineCode_call \<lparr>variable = None\<rparr> sample_highlight
       [CHR ''#'', CHR ''a'', newline, CHR ''b''] [] ''block'' =
     Inr (Html ''<span id=\"a\">a</span>'')
   \<and> InlineCode_call \<lparr>variable = None\<rparr> sample_highlight
       [CHR ''#'', CHR ''a'', newline, CHR ''b''] [] ''block'' \<noteq>
     Inr (Html (''<span id=\"'' @ [CHR ''a'', newline, CHR ''b''] @ ''\">''
                @ [CHR ''a'', newline, CHR ''b''] @ ''</span>''))"
proof -
  obtain m where "re_match inline_re (CHR ''#'' # [CHR ''a'', newline, CHR ''b'']) = Some m"
    "groups m = [Some ''#'', Some (takeWhile (\<lambda>y. y \<noteq> newline) [CHR ''a'', newline, CHR ''b''])]"
    using inline_sigil [of "CHR ''#''" "[CHR ''a'', newline, CHR ''b'']"] by auto
  then have "InlineCode_call \<lparr>variable = None\<rparr> sample_highlight
       [CHR ''#'', CHR ''a'', newline, CHR ''b''] [] ''block'' =
     Inr (Html ''<span id=\"a\">a</span>'')"
    by (simp add: InlineCode_call_def newline_def)
  then show ?thesis
    by (simp add: newline_def)
qed


subsection \<open>C2: the heading made from an outline block\<close>

text \<open>
  C2. A block that starts with a dotted numeric id (a segment \<open>d0\<close> and further
  segments \<open>segs\<close>, each preceded by a dot), then white space \<open>w\<close>, then the rest
  \<open>u\<close>, is accepted by \<open>test\<close>, and \<open>run\<close> appends to the parent a new element whose tag
  is \<open>h\<close> followed by the number of segments, whose only attribute is \<open>id\<close> with the
  id exactly, and whose text is the id, one space and the title (the rest up to its
  first line break); \<open>run\<close> returns \<open>False\<close>. By \<open>accepted_shape\<close> every accepted block
  has this shape.
\<close>

theorem outline_heading:
  assumes "digits d0" and "\<forall>g\<in>set segs. digits g"
    and "w \<noteq> []" and "\<forall>x\<in>set w. is_space x"
    and "u = [] \<or> \<not> is_space (hd u)"
    and "parent < lim h"
  shows "Syllabus_test parent (d0 @ dotted segs @ w @ u) \<noteq> None
    \<and> (case Syllabus_run parent ((d0 @ dotted segs @ w @ u) # bs) h of
         (r, h', bs') \<Rightarrow>
           r = Inr False
           \<and> cells h' (lim h) =
               \<lparr>tag = ''h'' @ str_nat (Suc (length segs)),
                attrib = [(''id'', PyStr (d0 @ dotted segs))],
                el_text = Some ((d0 @ dotted segs) @ '' '' @ takeWhile (\<lambda>y. y \<noteq> newline) u),
                children = []\<rparr>
           \<and> children (cells h' parent) = children (cells h parent) @ [lim h]
           \<and> lim h' = Suc (lim h))"
proof -
  from syllabus_match [OF assms(1-5)] have "Syllabus_test parent (d0 @ dotted segs @ w @ u) \<noteq> None"
    by (auto simp: Syllabus_test_def)
  moreover from assms(6) have "parent \<noteq> lim h" by simp
  ultimately show ?thesis
    using assms(6)
    by (simp add: syllabus_run_match [OF assms(1-5)] heap_simps)
qed

text \<open>An instance: the block \<open>1.2 Intro\<close> gives the element \<open>h2\<close> with id \<open>1.2\<close>.\<close>

theorem outline_heading_witness:
  "Syllabus_test 0 ''1.2 Intro'' \<noteq> None
    \<and> (case Syllabus_run 0 [''1.2 Intro''] root_heap of
         (r, h', bs') \<Rightarrow>
           r = Inr False
           \<and> cells h' 1 =
               \<lparr>tag = ''h2'', attrib = [(''id'', PyStr ''1.2'')],
                el_text = Some ''1.2 Intro'', children = []\<rparr>
           \<and> children (cells h' 0) = [1]
           \<and> lim h' = 2)"
proof -
  have "digits ''1''" "\<forall>g\<in>set [''2'']. digits g" "'' '' \<noteq> []" "\<forall>x\<in>set '' ''. is_space x"
    "''Intro'' = [] \<or> \<not> is_space (hd ''Intro'')" "0 < lim root_heap"
    by (simp_all add: digits_def is_digit_def is_space_def root_heap_def)
  from outline_heading [OF this, of "[]"]
  show ?thesis
    by (simp add: root_heap_def newline_def str_nat.simps numeral_2_eq_2)
qed


subsection \<open>C6: which blocks the outline rule accepts\<close>

text \<open>
  C6 (as amended). \<open>test\<close> returns a match exactly for the blocks that start with a
  dotted numeric id followed by at least one white-space character; that character
  may be a line break, and nothing need follow it (the title may be empty). On every
  other block \<open>run\<close> raises \<open>AttributeError\<close> before it changes anything: the store
  and the list of blocks are as they were.
\<close>

theorem outline_test_characterised:
  "(Syllabus_test parent b \<noteq> None \<longleftrightarrow>
      (\<exists>d0 segs x rest. digits d0 \<and> (\<forall>g\<in>set segs. digits g) \<and> is_space x
         \<and> b = d0 @ dotted segs @ x # rest))
   \<and> (Syllabus_test parent b = None \<longrightarrow>
        Syllabus_run parent (b # bs) h = (Inl AttributeError, h, b # bs))"
proof (intro conjI impI)
  show "Syllabus_test parent b \<noteq> None \<longleftrightarrow>
      (\<exists>d0 segs x rest. digits d0 \<and> (\<forall>g\<in>set segs. digits g) \<and> is_space x
         \<and> b = d0 @ dotted segs @ x # rest)"
    unfolding Syllabus_test_def by (rule syllabus_match_iff)
next
  assume "Syllabus_test parent b = None"
  then show "Syllabus_run parent (b # bs) h = (Inl AttributeError, h, b # bs)"
    by (simp add: Syllabus_test_def Syllabus_run_def)
qed

text \<open>An instance: \<open>2.3 Setup\<close> is accepted, \<open>Setup\<close> is not and is left as it is.\<close>

theorem outline_test_characterised_witness:
  "Syllabus_test 0 ''2.3 Setup'' \<noteq> None
   \<and> Syllabus_test 0 ''Setup'' = None
   \<and> Syllabus_run 0 [''Setup''] root_heap = (Inl AttributeError, root_heap, [''Setup''])"
proof -
  have 1: "Syllabus_test 0 ''2.3 Setup'' \<noteq> None"
    by (simp add: Syllabus_test_def syllabus_re_def re_eval)
  have 2: "Syllabus_test 0 ''Setup'' = None"
    by (simp add: Syllabus_test_def syllabus_re_def re_eval)
  from 1 2 outline_test_characterised [of 0 "''Setup''" "[]" root_heap]
  show ?thesis by simp
qed

text \<open>
  C6 as stated fails: the block \<open>1\<close> followed by a space, and the block of the two
  lines \<open>1\<close> and \<open>foo\<close>, do not match the pattern the claim names on their first line
  (it wants a title of at least one character on that line), yet \<open>test\<close> accepts both,
  and \<open>run\<close> rewrites the first one.
\<close>

theorem outline_test_counterexample:
  "Syllabus_test 0 ''1 '' \<noteq> None
   \<and> re_match spec_syllabus_re (takeWhile (\<lambda>y. y \<noteq> newline) ''1 '') = None
   \<and> Syllabus_test 0 [CHR ''1'', newline, CHR ''f'', CHR ''o'', CHR ''o''] \<noteq> None
   \<and> re_match spec_syllabus_re
        (takeWhile (\<lambda>y. y \<noteq> newline) [CHR ''1'', newline, CHR ''f'', CHR ''o'', CHR ''o'']) = None
   \<and> snd (snd (Syllabus_run 0 [''1 ''] root_heap)) = [[]]"
  by (simp add: Syllabus_test_def syllabus_re_def spec_syllabus_re_def re_eval Syllabus_run_def
      case_prod_beta)


subsection \<open>C7: what \<open>run\<close> returns and leaves of the block\<close>

text \<open>
  C7. On the blocks \<open>1.2 Intro\<close> and \<open>next\<close>, \<open>run\<close> appends the heading and empties
  the first block, as the claim says; but it returns \<open>False\<close> although the match
  succeeded, and the emptied block is still the first entry of the list. Its
  docstring says the value returned tells whether the match succeeded, and for the
  host parser \<open>False\<close> means that the block was not consumed: the block is not
  signalled as consumed and is offered to the processors that follow.
\<close>

theorem outline_run_returns_False_on_success:
  "(case Syllabus_run 0 [''1.2 Intro'', ''next''] root_heap of
      (r, h', bs') \<Rightarrow>
        r = Inr False
        \<and> bs' = [[], ''next'']
        \<and> cells h' (Suc 0) =
            \<lparr>tag = ''h2'', attrib = [(''id'', PyStr ''1.2'')],
             el_text = Some ''1.2 Intro'', children = []\<rparr>
        \<and> children (cells h' 0) = [Suc 0])"
proof -
  have "'' '' \<noteq> []" "\<forall>x\<in>set '' ''. is_space x" "''Intro'' = [] \<or> \<not> is_space (hd ''Intro'')"
    by (simp_all add: is_space_def)
  from syllabus_run_match [OF sample_id(1,2) this, of 0 "[''next'']" root_heap]
  show ?thesis
    by (simp add: heap_simps SubElement_new_at root_heap_def newline_def str_nat.simps)
qed


subsection \<open>C9: a dialogue block never fails\<close>

text \<open>
  C9. For a block element that exists in the store and has a text \<open>t\<close>, \<open>on_end\<close>
  returns normally whatever \<open>t\<close> is. The conversation container (the element made
  second, at the address after the title) gets at most one row for each non-empty
  line of \<open>t\<close>, so fewer rows than lines as soon as one line is empty. An empty line
  changes nothing, and every line either changes nothing or adds exactly the one row
  that \<open>line\<close> builds; no error is returned on the way.
\<close>

theorem dialogue_block_total:
  assumes "blk < lim h" and "el_text (cells h blk) = Some t"
  shows "(\<exists>h'. DialogueBlock_on_end argument blk h = (Inr (), h')
            \<and> length (children (cells h' (Suc (lim h))))
                \<le> length (filter (\<lambda>l. l \<noteq> []) (split newline t))
            \<and> ([] \<in> set (split newline t) \<longrightarrow>
                 length (children (cells h' (Suc (lim h)))) < length (split newline t)))
    \<and> (\<forall>self g. DialogueParser_lines self [] g = g)
    \<and> (\<forall>self l g. DialogueParser_lines self l g = g
          \<or> (\<exists>d c u k. DialogueParser_lines self l g = DialogueParser_line self d c u k g))"
proof -
  from on_end_result [OF assms, of argument] obtain h' rows where
    1: "DialogueBlock_on_end argument blk h = (Inr (), h')"
    and 2: "cells h' (Suc (lim h)) =
               \<lparr>tag = ''div'', attrib = [(''class'', PyStr ''dialog-container'')],
                el_text = None, children = rows\<rparr>"
    and 3: "length rows \<le> length (filter (\<lambda>l. l \<noteq> []) (split newline t))"
    by blast
  have "length (filter (\<lambda>l. l \<noteq> []) (split newline t)) < length (split newline t)"
    if "[] \<in> set (split newline t)"
    using that by (intro length_filter_less [of "[]"]) simp_all
  with 1 2 3 have "\<exists>h'. DialogueBlock_on_end argument blk h = (Inr (), h')
            \<and> length (children (cells h' (Suc (lim h))))
                \<le> length (filter (\<lambda>l. l \<noteq> []) (split newline t))
            \<and> ([] \<in> set (split newline t) \<longrightarrow>
                 length (children (cells h' (Suc (lim h)))) < length (split newline t))"
    by (intro exI [of _ h']) auto
  moreover have "\<forall>self g. DialogueParser_lines self [] g = g"
    by (simp add: DialogueParser_lines_def)
  moreover have "\<forall>self l g. DialogueParser_lines self l g = g
          \<or> (\<exists>d c u k. DialogueParser_lines self l g = DialogueParser_line self d c u k g)"
    using lines_cases by blast
  ultimately show ?thesis by blast
qed

text \<open>
  An instance: the three lines \<open>Alice>Hello\<close>, an empty line and \<open>Bob<Hi!\<close> give at
  most two rows.
\<close>

theorem dialogue_block_total_witness:
  "\<exists>h'. DialogueBlock_on_end None 1 (sample_heap (''Alice>Hello'' @ [newline, newline] @ ''Bob<Hi!''))
           = (Inr (), h')
        \<and> length (children (cells h' 3)) \<le> 2
        \<and> length (children (cells h' 3)) < 3"
proof -
  let ?t = "''Alice>Hello'' @ [newline, newline] @ ''Bob<Hi!''"
  have s: "split newline ?t = [''Alice>Hello'', [], ''Bob<Hi!'']"
    by (simp add: newline_def)
  have "1 < lim (sample_heap ?t)" "el_text (cells (sample_heap ?t) 1) = Some ?t"
    by (simp_all add: sample_heap_block)
  from dialogue_block_total [OF this, of None]
  show ?thesis
    by (simp only: s sample_heap_block) (auto simp: numeral_3_eq_3 numeral_2_eq_2)
qed


subsection \<open>C10: the rendered dialogue block\<close>

text \<open>
  C10. After \<open>on_end\<close> the text of the block element is the empty string, and its
  children are those it had (none for the block that \<open>on_create\<close> made) followed by,
  in this order, the title element with class \<open>message-title\<close>, the container with
  class \<open>dialog-container\<close>, and the \<open>br\<close> element. The container holds one row
  per turn: as many children as the lines of the text have turns (\<open>turns\<close>), all
  different elements, each a \<open>div\<close> of class \<open>dialog-row\<close>.
\<close>

theorem dialogue_block_rendered:
  assumes "blk < lim h" and "el_text (cells h blk) = Some t"
  shows "\<exists>h' br_el.
           DialogueBlock_on_end argument blk h = (Inr (), h')
           \<and> el_text (cells h' blk) = Some []
           \<and> children (cells h' blk) = children (cells h blk) @ [lim h, Suc (lim h), br_el]
           \<and> cells h' (lim h) =
               \<lparr>tag = ''div'', attrib = [(''class'', PyStr ''message-title'')],
                el_text = None, children = []\<rparr>
           \<and> tag (cells h' (Suc (lim h))) = ''div''
           \<and> attrib (cells h' (Suc (lim h))) = [(''class'', PyStr ''dialog-container'')]
           \<and> el_text (cells h' (Suc (lim h))) = None
           \<and> length (children (cells h' (Suc (lim h)))) = length (turns (split newline t))
           \<and> distinct (children (cells h' (Suc (lim h))))
           \<and> (\<forall>r\<in>set (children (cells h' (Suc (lim h)))). tag (cells h' r) = ''div''
                 \<and> attrib (cells h' r) = [(''class'', PyStr ''dialog-row'')])
           \<and> cells h' br_el = \<lparr>tag = ''br'', attrib = [], el_text = None, children = []\<rparr>"
proof -
  from on_end_result [OF assms, of argument] obtain h' rows br where
    "DialogueBlock_on_end argument blk h = (Inr (), h')"
    "cells h' blk = (cells h blk)\<lparr>el_text := Some [],
                 children := children (cells h blk) @ [lim h, Suc (lim h), br]\<rparr>"
    "cells h' (lim h) =
               \<lparr>tag = ''div'', attrib = [(''class'', PyStr ''message-title'')],
                el_text = None, children = []\<rparr>"
    "cells h' (Suc (lim h)) =
               \<lparr>tag = ''div'', attrib = [(''class'', PyStr ''dialog-container'')],
                el_text = None, children = rows\<rparr>"
    "cells h' br = \<lparr>tag = ''br'', attrib = [], el_text = None, children = []\<rparr>"
    "\<forall>r\<in>set rows. tag (cells h' r) = ''div''
                 \<and> attrib (cells h' r) = [(''class'', PyStr ''dialog-row'')]"
    "length rows = length (turns (split newline t))" "distinct rows"
    by blast
  then show ?thesis
    by (intro exI [of _ h'] exI [of _ br]) simp
qed

text \<open>
  An instance: the lines \<open>Alice>Hello\<close>, an empty line and \<open>Bob<<Hi!\<close> have two
  turns, and the container gets two rows.
\<close>

theorem dialogue_block_rendered_witness:
  "\<exists>h' br_el.
     DialogueBlock_on_end None 1
         (sample_heap (''Alice>Hello'' @ [newline, newline] @ ''Bob<<Hi!'')) = (Inr (), h')
     \<and> el_text (cells h' 1) = Some []
     \<and> children (cells h' 1) = [2, 3, br_el]
     \<and> attrib (cells h' 2) = [(''class'', PyStr ''message-title'')]
     \<and> attrib (cells h' 3) = [(''class'', PyStr ''dialog-container'')]
     \<and> length (children (cells h' 3)) = 2
     \<and> tag (cells h' br_el) = ''br''"
proof -
  let ?t = "''Alice>Hello'' @ [newline, newline] @ ''Bob<<Hi!''"
  have "1 < lim (sample_heap ?t)" "el_text (cells (sample_heap ?t) 1) = Some ?t"
    by (simp_all add: sample_heap_block)
  from dialogue_block_rendered [OF this, of None]
  obtain h' br_el where
    "DialogueBlock_on_end None 1 (sample_heap ?t) = (Inr (), h')"
    "el_text (cells h' 1) = Some []"
    "children (cells h' 1) = children (cells (sample_heap ?t) 1)
       @ [lim (sample_heap ?t), Suc (lim (sample_heap ?t)), br_el]"
    "cells h' (lim (sample_heap ?t)) =
               \<lparr>tag = ''div'', attrib = [(''class'', PyStr ''message-title'')],
                el_text = None, children = []\<rparr>"
    "attrib (cells h' (Suc (lim (sample_heap ?t)))) = [(''class'', PyStr ''dialog-container'')]"
    "length (children (cells h' (Suc (lim (sample_heap ?t))))) = length (turns (split newline ?t))"
    "cells h' br_el = \<lparr>tag = ''br'', attrib = [], el_text = None, children = []\<rparr>"
    by blast
  then show ?thesis
    by (intro exI [of _ h'] exI [of _ br_el])
       (simp only: sample_turns, simp add: sample_heap_block numeral_3_eq_3)
qed

end
